theory Spec2Isabelle
  imports Complex_Main
begin

section \<open>Strings: the parts of packages strings and fmt that the code calls\<close>

text \<open>
  A Go string is a byte sequence, modelled as \<^typ>\<open>string\<close>.
  \<open>Split\<close> is \<^verbatim>\<open>strings.Split\<close> for a one-byte separator: the pieces between
  the occurrences of the separator, so a string without the separator gives one piece.
\<close>

fun Split :: "string \<Rightarrow> char \<Rightarrow> string list" where
  "Split [] sep = [[]]"
| "Split (c # s) sep =
     (if c = sep then [] # Split s sep
      else (case Split s sep of [] \<Rightarrow> [[c]] | w # ws \<Rightarrow> (c # w) # ws))"

fun HasPrefix :: "string \<Rightarrow> string \<Rightarrow> bool" where
  "HasPrefix s [] = True"
| "HasPrefix [] (p # ps) = False"
| "HasPrefix (c # s) (p # ps) = (c = p \<and> HasPrefix s ps)"

text \<open>\<^verbatim>\<open>strings.Contains(s, substr)\<close>: \<open>substr\<close> occurs in \<open>s\<close> as a contiguous block.\<close>

fun Contains :: "string \<Rightarrow> string \<Rightarrow> bool" where
  "Contains [] substr = (substr = [])"
| "Contains (c # s) substr = (HasPrefix (c # s) substr \<or> Contains s substr)"

text \<open>\<^verbatim>\<open>strings.Join(elems, sep)\<close>.\<close>

fun Join :: "string list \<Rightarrow> string \<Rightarrow> string" where
  "Join [] sep = []"
| "Join [x] sep = x"
| "Join (x # y # ys) sep = x @ sep @ Join (y # ys) sep"

definition digit_char :: "nat \<Rightarrow> char" where
  "digit_char n = ''0123456789'' ! n"

fun digits :: "nat \<Rightarrow> string" where
  "digits n = (if n < 10 then [digit_char n] else digits (n div 10) @ [digit_char (n mod 10)])"

declare digits.simps [simp del]

text \<open>The verb \<^verbatim>\<open>%d\<close> of \<^verbatim>\<open>fmt.Sprintf\<close> on an int64: decimal, with a minus sign.\<close>

definition FormatInt :: "int \<Rightarrow> string" where
  "FormatInt i = (if i < 0 then CHR ''-'' # digits (nat (- i)) else digits (nat i))"

section \<open>Package time: instants, durations, float64 hours\<close>

text \<open>
  A \<^verbatim>\<open>time.Time\<close> is an instant, here the number of nanoseconds since the Unix epoch;
  \<open>After\<close> and \<open>Equal\<close> compare instants. A \<^verbatim>\<open>time.Duration\<close> is an int64 count of
  nanoseconds, and \<^verbatim>\<open>t.Sub(u)\<close> saturates at the ends of the int64 range.
  \<^verbatim>\<open>t.AddDate(0, 0, days)\<close> is calendar arithmetic; in a zone without offset changes
  (UTC) it moves the instant by whole days of 24 hours, which is what is modelled.
\<close>

type_synonym Time = int
type_synonym Duration = int

definition Nanosecond :: Duration where "Nanosecond = 1"
definition Second :: Duration where "Second = 1000000000 * Nanosecond"
definition Hour :: Duration where "Hour = 3600 * Second"

definition maxDuration :: Duration where "maxDuration = 2 ^ 63 - 1"
definition minDuration :: Duration where "minDuration = - (2 ^ 63)"

definition After :: "Time \<Rightarrow> Time \<Rightarrow> bool" where
  "After t u = (u < t)"

definition Equal :: "Time \<Rightarrow> Time \<Rightarrow> bool" where
  "Equal t u = (t = u)"

definition Sub :: "Time \<Rightarrow> Time \<Rightarrow> Duration" where
  "Sub t u = (let d = t - u in
     if d > maxDuration then maxDuration else if d < minDuration then minDuration else d)"

definition AddDate_days :: "Time \<Rightarrow> int \<Rightarrow> Time" where
  "AddDate_days t days = t + days * 24 * Hour"

text \<open>Go's integer division and remainder truncate toward zero.\<close>

definition quo :: "int \<Rightarrow> int \<Rightarrow> int" where
  "quo a b = sgn a * sgn b * (\<bar>a\<bar> div \<bar>b\<bar>)"

definition rem :: "int \<Rightarrow> int \<Rightarrow> int" where
  "rem a b = a - b * quo a b"

subsection \<open>float64 arithmetic\<close>

text \<open>
  A finite float64 is a rational \<open>m * 2 ^ e\<close> with \<open>\<bar>m\<bar> < 2 ^ 53\<close> and
  \<open>- 1074 \<le> e\<close>. Every float64 operation returns the exact result rounded to the
  nearest such number, ties to the even significand. \<open>expo x\<close> is the binary exponent
  of \<open>x\<close>, searched downward from the largest one, 1023, and stopping at the
  smallest normal one, - 1022, which is also the exponent of the subnormal numbers.
  Overflow to infinity is not modelled: the values of this program stay below \<open>2 ^ 22\<close>.
\<close>

definition rne :: "rat \<Rightarrow> int" where
  "rne x = (let f = \<lfloor>x\<rfloor>; r = x - of_int f in
     if r < 1 / 2 then f else if 1 / 2 < r then f + 1 else if even f then f else f + 1)"

fun expo_from :: "nat \<Rightarrow> int \<Rightarrow> rat \<Rightarrow> int" where
  "expo_from 0 e x = e"
| "expo_from (Suc n) e x = (if 2 powi e \<le> x then e else expo_from n (e - 1) x)"

definition expo :: "rat \<Rightarrow> int" where
  "expo x = expo_from 2045 1023 x"

definition f64 :: "rat \<Rightarrow> rat" where
  "f64 x = (let e = expo \<bar>x\<bar> in
     sgn x * of_int (rne (\<bar>x\<bar> * 2 powi (52 - e))) * 2 powi (e - 52))"

definition float64 :: "int \<Rightarrow> rat" where
  "float64 i = f64 (of_int i)"

definition f64_add :: "rat \<Rightarrow> rat \<Rightarrow> rat" where
  "f64_add a b = f64 (a + b)"

definition f64_div :: "rat \<Rightarrow> rat \<Rightarrow> rat" where
  "f64_div a b = f64 (a / b)"

text \<open>The conversion \<^verbatim>\<open>int64(f)\<close> of a float64 in range drops the fraction.\<close>

definition int64 :: "rat \<Rightarrow> int" where
  "int64 f = (if f < 0 then - \<lfloor>- f\<rfloor> else \<lfloor>f\<rfloor>)"

text \<open>
  \<^verbatim>\<open>func (d Duration) Hours() float64 {
    hour := d / Hour
    nsec := d % Hour
    return float64(hour) + float64(nsec)/(60*60*1e9)
  }\<close>
\<close>

definition Hours :: "Duration \<Rightarrow> rat" where
  "Hours d = (let hour = quo d Hour; nsec = rem d Hour in
     f64_add (float64 hour) (f64_div (float64 nsec) (60 * 60 * 1000000000)))"

section \<open>pkg/check.go, lines 1 to 119: the certificate checker\<close>

definition errExpiringShortly :: "int \<Rightarrow> string" where
  "errExpiringShortly n = ''expires in '' @ FormatInt n @ '' hours''"

definition errExpiringSoon :: "int \<Rightarrow> string" where
  "errExpiringSoon n = ''expires in '' @ FormatInt n @ '' days''"

definition errSunsetAlg :: "string \<Rightarrow> string" where
  "errSunsetAlg s =
     ''expires after the sunset date for its signature algorithm '' @ [CHR 0x27] @ s @ [CHR 0x27] @ ''.''"

definition errExpired :: string where
  "errExpired = ''SSLCertificate has expired''"

record CheckResult =
  WarnMsg :: string
  Host :: string

record sigAlgSunset =
  name :: string
  sunsetsAt :: Time

text \<open>The enumeration \<^verbatim>\<open>x509.SignatureAlgorithm\<close> of the Go library.\<close>

datatype x509_SignatureAlgorithm =
  UnknownSignatureAlgorithm | MD2WithRSA | MD5WithRSA | SHA1WithRSA | SHA256WithRSA
  | SHA384WithRSA | SHA512WithRSA | DSAWithSHA1 | DSAWithSHA256 | ECDSAWithSHA1
  | ECDSAWithSHA256 | ECDSAWithSHA384 | ECDSAWithSHA512 | SHA256WithRSAPSS
  | SHA384WithRSAPSS | SHA512WithRSAPSS | PureEd25519

text \<open>The fields of \<^verbatim>\<open>x509.Certificate\<close> that the checker reads.\<close>

record Certificate =
  NotAfter :: Time
  SignatureAlgorithm :: x509_SignatureAlgorithm

text \<open>
  The table is a package variable: two of its entries hold \<^verbatim>\<open>time.Now()\<close> of the moment
  the package was initialised, the parameter \<open>initNow\<close>; the others hold
  \<^verbatim>\<open>time.Date(2017, 1, 1, 0, 0, 0, 0, time.UTC)\<close>, 1483228800 seconds after the epoch.
\<close>

definition sunset2017 :: Time where
  "sunset2017 = 1483228800 * Second"

definition sunsetSigAlgs :: "Time \<Rightarrow> x509_SignatureAlgorithm \<Rightarrow> sigAlgSunset option" where
  "sunsetSigAlgs initNow =
     [MD2WithRSA \<mapsto> \<lparr>name = ''MD2 with RSA'', sunsetsAt = initNow\<rparr>,
      MD5WithRSA \<mapsto> \<lparr>name = ''MD5 with RSA'', sunsetsAt = initNow\<rparr>,
      SHA1WithRSA \<mapsto> \<lparr>name = ''SHA1 with RSA'', sunsetsAt = sunset2017\<rparr>,
      DSAWithSHA1 \<mapsto> \<lparr>name = ''DSA with SHA1'', sunsetsAt = sunset2017\<rparr>,
      ECDSAWithSHA1 \<mapsto> \<lparr>name = ''ECDSA with SHA1'', sunsetsAt = sunset2017\<rparr>]"

text \<open>
  What \<^verbatim>\<open>tls.Dial("tcp", host, nil)\<close> gives: an error, of which the code reads the text, or
  a connection, of which the code reads the verified chains.
\<close>

datatype DialResult = DialError string | Conn "Certificate list list"

text \<open>
  The effects of one call of \<open>checkHostHttps\<close>: the addresses passed to \<^verbatim>\<open>tls.Dial\<close>, the
  values sent on \<^verbatim>\<open>sc.out\<close> in the order sent, and the lines logged.
\<close>

record Effects =
  Dialed :: "string list"
  Sent :: "CheckResult list"
  Logged :: "string list"

text \<open>Lines 80 to 87: the address that is dialed for a host that is not skipped.\<close>

definition dialAddress :: "string \<Rightarrow> string" where
  "dialAddress host =
     (let values = Split host CHR '':'';
          host1 = (if length values = 1 then host @ '':443'' else host)
      in case host1 of
           [] \<Rightarrow> host1
         | c # rest \<Rightarrow> if c = CHR ''*'' then ''abcdefzhki'' @ rest @ '':443'' else host1)"

text \<open>Lines 102 to 109: the expiry check of one certificate.\<close>

definition expiresIn :: "Time \<Rightarrow> Certificate \<Rightarrow> int" where
  "expiresIn timeNow cert = int64 (Hours (Sub (NotAfter cert) timeNow))"

definition checkExpiration :: "Time \<Rightarrow> int \<Rightarrow> string \<Rightarrow> Certificate \<Rightarrow> CheckResult list" where
  "checkExpiration timeNow warnDays host cert =
     (if After (AddDate_days timeNow warnDays) (NotAfter cert) then
        (if expiresIn timeNow cert \<le> 48
         then [\<lparr>WarnMsg = errExpiringShortly (expiresIn timeNow cert), Host = host\<rparr>]
         else [\<lparr>WarnMsg = errExpiringSoon (quo (expiresIn timeNow cert) 24), Host = host\<rparr>])
      else [])"

text \<open>Lines 111 to 115: the signature algorithm check of the certificate at \<open>certNum\<close>.\<close>

definition checkSigAlg :: "Time \<Rightarrow> string \<Rightarrow> nat \<Rightarrow> nat \<Rightarrow> Certificate \<Rightarrow> CheckResult list" where
  "checkSigAlg initNow host len certNum cert =
     (case sunsetSigAlgs initNow (SignatureAlgorithm cert) of
        None \<Rightarrow> []
      | Some alg \<Rightarrow>
          if int certNum \<noteq> int len - 1 then
            (if Equal (NotAfter cert) (sunsetsAt alg) \<or> After (NotAfter cert) (sunsetsAt alg)
             then [\<lparr>WarnMsg = errSunsetAlg (name alg), Host = host\<rparr>] else [])
          else [])"

text \<open>The inner loop, over the certificates of one chain of length \<open>len\<close>, from index \<open>certNum\<close>.\<close>

fun chainLoop :: "Time \<Rightarrow> Time \<Rightarrow> int \<Rightarrow> string \<Rightarrow> nat \<Rightarrow> nat \<Rightarrow> Certificate list \<Rightarrow> CheckResult list" where
  "chainLoop initNow timeNow warnDays host len certNum [] = []"
| "chainLoop initNow timeNow warnDays host len certNum (cert # rest) =
     checkExpiration timeNow warnDays host cert
     @ checkSigAlg initNow host len certNum cert
     @ chainLoop initNow timeNow warnDays host len (Suc certNum) rest"

text \<open>The outer loop, over \<^verbatim>\<open>conn.ConnectionState().VerifiedChains\<close>.\<close>

fun chainsLoop :: "Time \<Rightarrow> Time \<Rightarrow> int \<Rightarrow> string \<Rightarrow> Certificate list list \<Rightarrow> CheckResult list" where
  "chainsLoop initNow timeNow warnDays host [] = []"
| "chainsLoop initNow timeNow warnDays host (chain # others) =
     chainLoop initNow timeNow warnDays host (length chain) 0 chain
     @ chainsLoop initNow timeNow warnDays host others"

text \<open>
  \<open>checkHostHttps\<close>, with its environment as parameters: \<open>dial\<close> answers \<^verbatim>\<open>tls.Dial\<close>,
  \<open>timeNow\<close> is the \<^verbatim>\<open>time.Now()\<close> read after the handshake.
\<close>

definition checkHostHttps ::
  "(string \<Rightarrow> DialResult) \<Rightarrow> Time \<Rightarrow> Time \<Rightarrow> string \<Rightarrow> int \<Rightarrow> Effects" where
  "checkHostHttps dial initNow timeNow host warnDays =
     (case host of
        [] \<Rightarrow> \<lparr>Dialed = [], Sent = [], Logged = []\<rparr>
      | c # cs \<Rightarrow>
          if c = CHR ''@'' then \<lparr>Dialed = [], Sent = [], Logged = []\<rparr>
          else
            let addr = dialAddress host in
            (case dial addr of
               DialError err \<Rightarrow>
                 if Contains err ''certificate has expired''
                 then \<lparr>Dialed = [addr], Sent = [\<lparr>WarnMsg = errExpired, Host = addr\<rparr>], Logged = []\<rparr>
                 else \<lparr>Dialed = [addr], Sent = [],
                        Logged = [''WARN skip check '' @ addr @ '' '' @ err]\<rparr>
             | Conn verifiedChains \<Rightarrow>
                 \<lparr>Dialed = [addr],
                  Sent = chainsLoop initNow timeNow warnDays addr verifiedChains,
                  Logged = [''DEBUG end checking '' @ addr]\<rparr>))"

section \<open>pkg/check.go, lines 120 to 223: the aggregator\<close>

record Content =
  Content :: string

record At =
  AtMobiles :: "string list"

record DMessage =
  MsgType :: string
  Text :: Content
  At :: At
  IsAtAll :: bool

text \<open>The parameter \<open>atMobiles\<close> is a slice that may be \<^verbatim>\<open>nil\<close>, here \<open>None\<close>.\<close>

definition newDMessage :: "string \<Rightarrow> string list option \<Rightarrow> bool \<Rightarrow> DMessage" where
  "newDMessage msg atMobiles atAll =
     (let atMobiles1 = (case atMobiles of None \<Rightarrow> [] | Some ms \<Rightarrow> ms);
          atUsers = \<lparr>AtMobiles = atMobiles1\<rparr>;
          text1 = \<lparr>Content = msg\<rparr>
      in \<lparr>MsgType = ''text'', Text = text1, At = atUsers, IsAtAll = atAll\<rparr>)"

text \<open>
  The map \<^verbatim>\<open>msgs\<close> of type \<^verbatim>\<open>map[string][]string\<close> is an association list with one entry
  for each key. \<open>appendHost msgs k h\<close> is the statement
  \<^verbatim>\<open>msgs[k] = append(msgs[k], h)\<close>: a key that is absent reads as the nil slice.
\<close>

type_synonym Msgs = "(string \<times> string list) list"

fun appendHost :: "Msgs \<Rightarrow> string \<Rightarrow> string \<Rightarrow> Msgs" where
  "appendHost [] k h = [(k, [h])]"
| "appendHost ((k', hs) # rest) k h =
     (if k' = k then (k', hs @ [h]) # rest else (k', hs) # appendHost rest k h)"

text \<open>What \<^verbatim>\<open>httpClient.Post\<close> gives: an error, or a response of which the body is read.\<close>

datatype PostResult = PostError string | Response string

text \<open>The two cases of the \<^verbatim>\<open>select\<close>: a value received on \<^verbatim>\<open>dn.ch\<close>, or a tick.\<close>

datatype Event = Receive CheckResult | Tick

text \<open>
  The state of the loop of \<open>Send\<close>: the map, the messages handed to \<^verbatim>\<open>httpClient.Post\<close> so
  far, and the lines logged.
\<close>

record SendState =
  msgs :: Msgs
  posted :: "DMessage list"
  logged :: "string list"

text \<open>
  One iteration of the loop. \<open>post\<close> answers \<^verbatim>\<open>httpClient.Post\<close>, which is handed the
  message in its JSON encoding. Go visits the entries of a map in an order of its own
  choosing: \<open>rangeOrder\<close> gives the order of that visit.
\<close>

fun Send_step :: "(DMessage \<Rightarrow> PostResult) \<Rightarrow> (Msgs \<Rightarrow> Msgs) \<Rightarrow> SendState \<Rightarrow> Event \<Rightarrow> SendState" where
  "Send_step post rangeOrder st (Receive msg) =
     st\<lparr>msgs := appendHost (msgs st) (WarnMsg msg) (Host msg)\<rparr>"
| "Send_step post rangeOrder st Tick =
     (if length (msgs st) = 0 then st\<lparr>logged := logged st @ [''DEBUG no messages need to send'']\<rparr>
      else
        let sendMsgs = concat (map (\<lambda>(msg, hosts). msg # hosts) (rangeOrder (msgs st)));
            msg = newDMessage (Join sendMsgs [CHR 0x0A]) None False
        in (case post msg of
              PostError err \<Rightarrow>
                \<lparr>msgs = [], posted = posted st @ [msg],
                 logged = logged st @ [''ERROR DDing Notify send failed '' @ err]\<rparr>
            | Response body \<Rightarrow>
                \<lparr>msgs = [], posted = posted st @ [msg],
                 logged = logged st @ [''DEBUG dding response '' @ body]\<rparr>))"

declare Send_step.simps(2) [simp del]

text \<open>\<open>Send\<close> on the events that the \<^verbatim>\<open>select\<close> takes, from the empty map.\<close>

definition Send :: "(DMessage \<Rightarrow> PostResult) \<Rightarrow> (Msgs \<Rightarrow> Msgs) \<Rightarrow> Event list \<Rightarrow> SendState" where
  "Send post rangeOrder events =
     foldl (Send_step post rangeOrder) \<lparr>msgs = [], posted = [], logged = []\<rparr> events"

text \<open>The hosts of the findings with message \<open>m\<close>, in the order of the findings.\<close>

abbreviation hostsOf :: "string \<Rightarrow> CheckResult list \<Rightarrow> string list" where
  "hostsOf m rs \<equiv> map Host (filter (\<lambda>r. WarnMsg r = m) rs)"

section \<open>pkg/check.go, lines 224 to 273: the options of providers and notifiers\<close>

text \<open>
  A value of type \<^verbatim>\<open>any\<close> read from YAML: nil, a string, or a value of another type.
  Indexing a map with a key it does not have gives nil.
\<close>

datatype any = Nil | Str string | Other

text \<open>
  How a call ends: it returns, it ends the process through \<^verbatim>\<open>log.Fatalln\<close>, or it
  panics.
\<close>

datatype 'a Outcome = Return 'a | Fatal string | Panic string

definition index :: "(string \<Rightarrow> any option) \<Rightarrow> string \<Rightarrow> any" where
  "index m key = (case m key of None \<Rightarrow> Nil | Some v \<Rightarrow> v)"

text \<open>The type assertion \<^verbatim>\<open>v.(string)\<close>.\<close>

definition assertString :: "any \<Rightarrow> string Outcome" where
  "assertString v =
     (case v of
        Str s \<Rightarrow> Return s
      | Nil \<Rightarrow> Panic ''interface conversion: interface {} is nil, not string''
      | Other \<Rightarrow> Panic ''interface conversion: interface {} is not string'')"

record ProviderConfig =
  Name :: string
  ProviderType :: string
  Addition :: "string \<Rightarrow> any option"
  Domains :: "string list"

definition ProviderConfig_Get :: "ProviderConfig \<Rightarrow> string \<Rightarrow> string Outcome" where
  "ProviderConfig_Get pc key =
     (if index (Addition pc) key = Nil then Fatal (key @ '' not exist'')
      else assertString (index (Addition pc) key))"

record NotifyConfig =
  Type :: string
  Config :: "string \<Rightarrow> any option"

definition NotifyConfig_Get :: "NotifyConfig \<Rightarrow> string \<Rightarrow> string Outcome" where
  "NotifyConfig_Get nc key = assertString (index (Config nc) key)"

text \<open>\<open>NewNotify\<close>: the notifier built, \<open>None\<close> for the nil interface.\<close>

record DDingNotify =
  url :: string

definition NewNotify :: "NotifyConfig \<Rightarrow> DDingNotify option Outcome" where
  "NewNotify config =
     (if Type config = ''dding'' then
        (case NotifyConfig_Get config ''url'' of
           Return u \<Rightarrow> Return (Some \<lparr>url = u\<rparr>)
         | Fatal m \<Rightarrow> Fatal m
         | Panic m \<Rightarrow> Panic m)
      else Return None)"

section \<open>pkg/provider.go: the remote DNS provider\<close>

definition defaultSize :: int where "defaultSize = 100"
definition maxRetry :: nat where "maxRetry = 3"
definition enable :: string where "enable = ''ENABLE''"
definition dnsTypes :: "string list" where "dnsTypes = [''A'', ''CNAME'']"

record DescribeDomainRecordsRequest =
  Lang :: string
  PageSize :: int
  PageNumber :: int
  DomainName :: string
  RecordType :: string
  Status :: string

text \<open>Of the response the code reads the status, the total count and the RR of each record.\<close>

record DescribeDomainRecordsResponse =
  StatusCode :: int
  TotalCount :: int
  Record :: "string list"

text \<open>
  What \<^verbatim>\<open>DescribeDomainRecordsWithOptions\<close> gives: an error or a response. A client
  answers a request by the number of times the same request was made before.
\<close>

datatype ApiResult = ApiError string | ApiResponse DescribeDomainRecordsResponse

type_synonym Client = "DescribeDomainRecordsRequest \<Rightarrow> nat \<Rightarrow> ApiResult"

text \<open>
  The effects and the result of one call of \<open>fetchWithRetry\<close>: the two values returned
  (\<open>lastErr\<close> is \<open>None\<close> for the nil error), the hostnames sent on \<^verbatim>\<open>out\<close>, and the number
  of calls of the client.
\<close>

record Fetch =
  cnt :: int
  lastErr :: "string option"
  sent :: "string list"
  calls :: nat

definition succeeded :: "ApiResult \<Rightarrow> bool" where
  "succeeded r = (case r of ApiError e \<Rightarrow> False | ApiResponse resp \<Rightarrow> StatusCode resp = 200)"

text \<open>The loop \<^verbatim>\<open>for retry := 0; retry < maxRetry; retry++\<close>, from the value \<open>retry\<close>.\<close>

function retryLoop :: "(nat \<Rightarrow> ApiResult) \<Rightarrow> string \<Rightarrow> nat \<Rightarrow> string option \<Rightarrow> Fetch" where
  "retryLoop answer domain retry lastE =
     (if retry < maxRetry then
        (case answer retry of
           ApiError e \<Rightarrow> retryLoop answer domain (retry + 1) (Some e)
         | ApiResponse resp \<Rightarrow>
             if StatusCode resp = 200 then
               \<lparr>cnt = (if rem (TotalCount resp) defaultSize \<noteq> 0
                        then quo (TotalCount resp) defaultSize + 1
                        else quo (TotalCount resp) defaultSize),
                lastErr = None,
                sent = map (\<lambda>rr. rr @ ''.'' @ domain) (Record resp),
                calls = retry + 1\<rparr>
             else retryLoop answer domain (retry + 1) None)
      else \<lparr>cnt = - 1, lastErr = lastE, sent = [], calls = retry\<rparr>)"
  by pat_completeness auto
termination
  by (relation "measure (\<lambda>(answer, domain, retry, lastE). maxRetry - retry)") auto

declare retryLoop.simps [simp del]

definition fetchWithRetry :: "Client \<Rightarrow> string \<Rightarrow> string \<Rightarrow> int \<Rightarrow> int \<Rightarrow> Fetch" where
  "fetchWithRetry client domain dnsType page pageSize =
     (let describeDomainRecordsRequest =
            \<lparr>Lang = ''en'', PageSize = pageSize, PageNumber = page, DomainName = domain,
             RecordType = dnsType, Status = enable\<rparr>
      in retryLoop (client describeDomainRecordsRequest) domain 0 None)"

text \<open>
  The effects of \<open>getRecords\<close>: the hostnames sent on \<^verbatim>\<open>out\<close>, those of the first page
  and then those of each later page (the later pages are fetched by goroutines of their
  own, so that the order among them is not fixed), the lines logged, and the fetches made.
\<close>

record Records =
  hostnames :: "string list"
  warnings :: "string list"
  fetches :: "Fetch list"

definition getRecords :: "Client \<Rightarrow> string \<Rightarrow> string \<Rightarrow> Records" where
  "getRecords client domain dnsType =
     (let first = fetchWithRetry client domain dnsType 1 defaultSize;
          totalPage = cnt first
      in if lastErr first \<noteq> None \<or> totalPage < 0 then
           \<lparr>hostnames = sent first,
            warnings = [''Get domain '' @ domain @ '' total page failed ''
                        @ (case lastErr first of None \<Rightarrow> ''%!s(<nil>)'' | Some e \<Rightarrow> e)],
            fetches = [first]\<rparr>
         else
           let later = map (\<lambda>page. fetchWithRetry client domain dnsType page defaultSize)
                         [2..totalPage]
           in \<lparr>hostnames = sent first @ concat (map sent later),
               warnings = [],
               fetches = first # later\<rparr>)"

text \<open>
  \<^verbatim>\<open>strings.TrimSpace\<close> removes from both ends of a string the white space of Unicode.
  \<open>whiteSpace\<close> lists the UTF-8 encodings of the code points for which \<^verbatim>\<open>unicode.IsSpace\<close>
  holds: the six of ASCII, U+0085, U+00A0, U+1680, U+2000 to U+200A, U+2028, U+2029,
  U+202F, U+205F and U+3000. The left end is trimmed first, one code point at a time,
  then the right end.
\<close>

definition whiteSpace :: "string list" where
  "whiteSpace =
     [[CHR 0x09], [CHR 0x0A], [CHR 0x0B], [CHR 0x0C], [CHR 0x0D], [CHR 0x20],
      [CHR 0xC2, CHR 0x85], [CHR 0xC2, CHR 0xA0],
      [CHR 0xE1, CHR 0x9A, CHR 0x80],
      [CHR 0xE2, CHR 0x80, CHR 0x80], [CHR 0xE2, CHR 0x80, CHR 0x81],
      [CHR 0xE2, CHR 0x80, CHR 0x82], [CHR 0xE2, CHR 0x80, CHR 0x83],
      [CHR 0xE2, CHR 0x80, CHR 0x84], [CHR 0xE2, CHR 0x80, CHR 0x85],
      [CHR 0xE2, CHR 0x80, CHR 0x86], [CHR 0xE2, CHR 0x80, CHR 0x87],
      [CHR 0xE2, CHR 0x80, CHR 0x88], [CHR 0xE2, CHR 0x80, CHR 0x89],
      [CHR 0xE2, CHR 0x80, CHR 0x8A],
      [CHR 0xE2, CHR 0x80, CHR 0xA8], [CHR 0xE2, CHR 0x80, CHR 0xA9],
      [CHR 0xE2, CHR 0x80, CHR 0xAF], [CHR 0xE2, CHR 0x81, CHR 0x9F],
      [CHR 0xE3, CHR 0x80, CHR 0x80]]"

definition HasSuffix :: "string \<Rightarrow> string \<Rightarrow> bool" where
  "HasSuffix s suffix = HasPrefix (rev s) (rev suffix)"

lemma HasPrefix_length: "HasPrefix s p \<Longrightarrow> length p \<le> length s"
  by (induction s p rule: HasPrefix.induct) auto

lemma whiteSpace_nonempty: "w \<in> set whiteSpace \<Longrightarrow> 0 < length w"
  by (auto simp: whiteSpace_def)

function TrimLeft :: "string \<Rightarrow> string" where
  "TrimLeft s =
     (case find (HasPrefix s) whiteSpace of
        None \<Rightarrow> s
      | Some w \<Rightarrow> TrimLeft (drop (length w) s))"
  by pat_completeness auto
termination
proof (relation "measure length")
  show "wf (measure length)" by simp
next
  fix s w
  assume "find (HasPrefix s) whiteSpace = Some w"
  then have "w \<in> set whiteSpace" "HasPrefix s w" by (auto simp: find_Some_iff)
  then have "0 < length w" "length w \<le> length s"
    by (auto dest: whiteSpace_nonempty HasPrefix_length)
  then show "(drop (length w) s, s) \<in> measure length" by (cases w) auto
qed

function TrimRight :: "string \<Rightarrow> string" where
  "TrimRight s =
     (case find (HasSuffix s) whiteSpace of
        None \<Rightarrow> s
      | Some w \<Rightarrow> TrimRight (take (length s - length w) s))"
  by pat_completeness auto
termination
proof (relation "measure length")
  show "wf (measure length)" by simp
next
  fix s w
  assume "find (HasSuffix s) whiteSpace = Some w"
  then have "w \<in> set whiteSpace" "HasPrefix (rev s) (rev w)"
    by (auto simp: find_Some_iff HasSuffix_def)
  then have "0 < length w" "length w \<le> length s"
    by (auto dest: whiteSpace_nonempty HasPrefix_length)
  then show "(take (length s - length w) s, s) \<in> measure length" by (cases w) auto
qed

declare TrimLeft.simps [simp del] TrimRight.simps [simp del]

definition TrimSpace :: "string \<Rightarrow> string" where
  "TrimSpace s = TrimRight (TrimLeft s)"

text \<open>
  \<open>GetAllRecords\<close> starts one goroutine for each domain and record type; the result
  lists what each of them does, by its domain and record type.
\<close>

definition GetAllRecords :: "Client \<Rightarrow> string list \<Rightarrow> ((string \<times> string) \<times> Records) list" where
  "GetAllRecords client domains =
     concat (map (\<lambda>domain. map (\<lambda>dnsType.
        ((TrimSpace domain, dnsType), getRecords client (TrimSpace domain) dnsType)) dnsTypes) domains)"

section \<open>Rounding to float64\<close>

text \<open>
  Rounding is monotone on the numbers \<open>k * 2 ^ j\<close> with \<open>k < 2 ^ 53\<close>: a bound of that
  form on the exact value is a bound on the rounded value.
\<close>

lemma rne_cases: "rne x = \<lfloor>x\<rfloor> \<or> rne x = \<lfloor>x\<rfloor> + 1"
  by (simp add: rne_def Let_def)

lemma rne_of_int: "rne (of_int n) = n"
  by (simp add: rne_def Let_def)

lemma rne_ge: "of_int n \<le> x \<Longrightarrow> n \<le> rne x"
proof -
  assume "of_int n \<le> x"
  then have "n \<le> \<lfloor>x\<rfloor>" by (simp add: le_floor_iff)
  then show ?thesis using rne_cases [of x] by auto
qed

lemma rne_le: "x \<le> of_int n \<Longrightarrow> rne x \<le> n"
proof (cases "x = of_int n")
  case True
  then show ?thesis by (simp add: rne_of_int)
next
  case False
  assume "x \<le> of_int n"
  with False have "x < of_int n" by simp
  then have "\<lfloor>x\<rfloor> < n" by (simp add: floor_less_iff)
  then show ?thesis using rne_cases [of x] by auto
qed

lemma rne_ge_half: "of_int n - 1 / 2 < x \<Longrightarrow> n \<le> rne x"
proof -
  assume a: "of_int n - 1 / 2 < x"
  show ?thesis
  proof (cases "of_int n \<le> x")
    case True
    then show ?thesis by (rule rne_ge)
  next
    case False
    then have lt: "x < of_int n" by simp
    have "of_int (n - 1) \<le> x" using a by simp
    then have f: "\<lfloor>x\<rfloor> = n - 1" using lt by (simp add: floor_eq_iff)
    then have "1 / 2 < x - of_int \<lfloor>x\<rfloor>" using a by simp
    then show ?thesis using f by (simp add: rne_def Let_def)
  qed
qed

lemma rne_le_half: "x < of_int n + 1 / 2 \<Longrightarrow> rne x \<le> n"
proof -
  assume a: "x < of_int n + 1 / 2"
  show ?thesis
  proof (cases "x < of_int n")
    case True
    then have "x \<le> of_int n" by simp
    then show ?thesis by (rule rne_le)
  next
    case False
    then have ge: "of_int n \<le> x" by simp
    have "x < of_int n + 1" using a by simp
    with ge have f: "\<lfloor>x\<rfloor> = n" by (simp add: floor_eq_iff)
    then have "x - of_int \<lfloor>x\<rfloor> < 1 / 2" using a by simp
    then show ?thesis using f by (simp add: rne_def Let_def)
  qed
qed

lemma expo_from_bounds:
  "x < 2 powi (e + 1) \<Longrightarrow> 2 powi (e - int n) \<le> x
    \<Longrightarrow> 2 powi (expo_from n e x) \<le> x \<and> x < 2 powi (expo_from n e x + 1)"
proof (induction n arbitrary: e)
  case 0
  then show ?case by simp
next
  case (Suc n)
  show ?case
  proof (cases "2 powi e \<le> x")
    case True
    then show ?thesis using Suc.prems by simp
  next
    case False
    then have "x < 2 powi (e - 1 + 1)" by simp
    moreover have "2 powi (e - 1 - int n) \<le> x" using Suc.prems(2) by (simp add: algebra_simps)
    ultimately show ?thesis using Suc.IH [of "e - 1"] False by simp
  qed
qed

lemma expo_bounds:
  assumes "2 powi (- 1022) \<le> x" "x < 2 powi 1024"
  shows "2 powi (expo x) \<le> x \<and> x < 2 powi (expo x + 1)"
  unfolding expo_def using expo_from_bounds [of x 1023 2045] assms by simp


lemma two_powi_less_imp: "(2::rat) powi a < 2 powi b \<Longrightarrow> a < b"
proof (rule ccontr)
  assume l: "(2::rat) powi a < 2 powi b" and n: "\<not> a < b"
  from n have "(2::rat) powi b \<le> 2 powi a" by (intro power_int_increasing) auto
  with l show False by simp
qed

lemma expo_eq:
  assumes "2 powi e \<le> x" "x < 2 powi (e + 1)" "- 1022 \<le> e" "e \<le> 1023"
  shows "expo x = e"
proof -
  have lo: "2 powi (- 1022) \<le> x"
  proof -
    have "(2::rat) powi (- 1022) \<le> 2 powi e" using assms(3) by (intro power_int_increasing) auto
    then show ?thesis using assms(1) by (rule order_trans)
  qed
  have hi: "x < 2 powi 1024"
  proof -
    have "(2::rat) powi (e + 1) \<le> 2 powi 1024" using assms(4) by (intro power_int_increasing) auto
    with assms(2) show ?thesis by (rule less_le_trans)
  qed
  have b: "2 powi (expo x) \<le> x" "x < 2 powi (expo x + 1)" using expo_bounds [OF lo hi] by simp_all
  have "(2::rat) powi (expo x) < 2 powi (e + 1)" using b(1) assms(2) by (rule le_less_trans)
  then have "expo x < e + 1" by (rule two_powi_less_imp)
  moreover have "(2::rat) powi e < 2 powi (expo x + 1)" using assms(1) b(2) by (rule le_less_trans)
  then have "e < expo x + 1" by (rule two_powi_less_imp)
  ultimately show ?thesis by simp
qed

lemma powi_mult: "a + b = c \<Longrightarrow> (2::rat) powi a * 2 powi b = 2 powi c"
  using power_int_add [of "2::rat" a b] by auto

lemma powi_nat: "0 \<le> n \<Longrightarrow> (2::rat) powi n = of_int (2 ^ nat n)"
  by (simp add: power_int_nonneg_exp)

lemma f64_pos:
  "0 < x \<Longrightarrow> f64 x = of_int (rne (x * 2 powi (52 - expo x))) * 2 powi (expo x - 52)"
  by (simp add: f64_def Let_def)

lemma rne_le_powi:
  assumes "s \<le> 2 powi n" "0 \<le> n"
  shows "(of_int (rne s) :: rat) \<le> 2 powi n"
proof -
  have "s \<le> of_int (2 ^ nat n)" using assms powi_nat [of n] by simp
  then have "rne s \<le> 2 ^ nat n" by (rule rne_le)
  then have "(of_int (rne s) :: rat) \<le> of_int (2 ^ nat n)" by (simp only: of_int_le_iff)
  then show ?thesis using powi_nat [of n] assms(2) by simp
qed

lemma rne_ge_powi:
  assumes "2 powi n \<le> s" "0 \<le> n"
  shows "2 powi n \<le> (of_int (rne s) :: rat)"
proof -
  have "of_int (2 ^ nat n) \<le> s" using assms powi_nat [of n] by simp
  then have "2 ^ nat n \<le> rne s" by (rule rne_ge)
  then have "(of_int (2 ^ nat n) :: rat) \<le> of_int (rne s)" by (simp only: of_int_le_iff)
  then show ?thesis using powi_nat [of n] assms(2) by simp
qed

lemma scaled_grid:
  assumes k: "0 < k" "k < 2 ^ 53" and lo: "(2::rat) powi e \<le> of_int k * 2 powi j"
  shows "of_int k * 2 powi j * 2 powi (52 - e) = (of_int (k * 2 ^ nat (j + 52 - e)) :: rat)"
proof -
  have "(of_int k :: rat) < of_int (2 ^ 53)" using k(2) by (simp only: of_int_less_iff)
  also have "(of_int (2 ^ 53) :: rat) = 2 powi 53" using powi_nat [of 53] by simp
  finally have "(of_int k :: rat) < 2 powi 53" .
  moreover have "(0::rat) < 2 powi j" by simp
  ultimately have "of_int k * (2::rat) powi j < 2 powi 53 * 2 powi j"
    by (rule mult_strict_right_mono)
  also have "\<dots> = 2 powi (53 + j)" by (rule powi_mult) simp
  finally have "(2::rat) powi e < 2 powi (53 + j)" using lo by simp
  then have "e < 53 + j" by (rule two_powi_less_imp)
  then have nn: "0 \<le> j + 52 - e" by simp
  have "(2::rat) powi j * 2 powi (52 - e) = 2 powi (j + 52 - e)"
    by (rule powi_mult) simp
  also have "\<dots> = of_int (2 ^ nat (j + 52 - e))" using nn by (rule powi_nat)
  finally have "(2::rat) powi j * 2 powi (52 - e) = of_int (2 ^ nat (j + 52 - e))" .
  then have "of_int k * ((2::rat) powi j * 2 powi (52 - e)) = of_int k * of_int (2 ^ nat (j + 52 - e))"
    by (rule arg_cong)
  then show ?thesis by (simp only: mult.assoc of_int_mult)
qed

lemma unscale: "y * (2::rat) powi (52 - e) * 2 powi (e - 52) = y"
proof -
  have "(2::rat) powi (52 - e) * 2 powi (e - 52) = 2 powi 0" by (rule powi_mult) simp
  then show ?thesis by (simp add: mult.assoc)
qed

lemma f64_le:
  assumes x: "2 powi (- 1022) \<le> x" "x < 2 powi 1024"
    and b: "x \<le> of_int k * 2 powi j" and k: "k < 2 ^ 53"
  shows "f64 x \<le> of_int k * 2 powi j"
proof -
  define e where "e = expo x"
  define s where "s = x * 2 powi (52 - e)"
  define p where "p = (2::rat) powi (e - 52)"
  have xpos: "0 < x" using x(1) by (rule less_le_trans [rotated]) simp
  have eb: "2 powi e \<le> x" "x < 2 powi (e + 1)" using expo_bounds [OF x] by (simp_all add: e_def)
  have fx: "f64 x = of_int (rne s) * p" using f64_pos [OF xpos] by (simp add: e_def s_def p_def)
  have p52: "(0::rat) < 2 powi (52 - e)" and ppos: "0 < p" by (simp_all add: p_def)
  show ?thesis
  proof (cases "2 powi (e + 1) \<le> of_int k * (2::rat) powi j")
    case True
    have "s < 2 powi (e + 1) * 2 powi (52 - e)"
      unfolding s_def using eb(2) p52 by (rule mult_strict_right_mono)
    also have "\<dots> = 2 powi 53" by (rule powi_mult) simp
    finally have "s \<le> 2 powi 53" by simp
    then have "(of_int (rne s) :: rat) \<le> 2 powi 53" by (rule rne_le_powi) simp
    then have "of_int (rne s) * p \<le> 2 powi 53 * p"
      using ppos by (intro mult_right_mono) auto
    also have "\<dots> = 2 powi (e + 1)" unfolding p_def by (rule powi_mult) simp
    finally show ?thesis using True fx by (simp only:)
  next
    case False
    have kpos: "0 < k"
    proof (rule ccontr)
      assume "\<not> 0 < k"
      then have "(of_int k :: rat) \<le> 0" by simp
      then have "of_int k * (2::rat) powi j \<le> 0" by (simp add: mult_le_0_iff)
      with b xpos show False by simp
    qed
    have lo: "(2::rat) powi e \<le> of_int k * 2 powi j" using eb(1) b by simp
    have g: "of_int k * 2 powi j * 2 powi (52 - e) = (of_int (k * 2 ^ nat (j + 52 - e)) :: rat)"
      using kpos k lo by (rule scaled_grid)
    have "s \<le> of_int k * 2 powi j * 2 powi (52 - e)"
      unfolding s_def using b p52 by (intro mult_right_mono) auto
    then have "rne s \<le> k * 2 ^ nat (j + 52 - e)" unfolding g by (rule rne_le)
    then have "(of_int (rne s) :: rat) \<le> of_int (k * 2 ^ nat (j + 52 - e))" by (simp only: of_int_le_iff)
    then have "of_int (rne s) * p \<le> of_int (k * 2 ^ nat (j + 52 - e)) * p"
      using ppos by (intro mult_right_mono) auto
    also have "\<dots> = of_int k * 2 powi j"
      unfolding g [symmetric] p_def by (rule unscale)
    finally show ?thesis using fx by (simp only:)
  qed
qed

lemma f64_ge:
  assumes x: "2 powi (- 1022) \<le> x" "x < 2 powi 1024"
    and a: "of_int k * 2 powi j \<le> x" and k: "0 < k" "k < 2 ^ 53"
  shows "of_int k * 2 powi j \<le> f64 x"
proof -
  define e where "e = expo x"
  define s where "s = x * 2 powi (52 - e)"
  define p where "p = (2::rat) powi (e - 52)"
  have xpos: "0 < x" using x(1) by (rule less_le_trans [rotated]) simp
  have eb: "2 powi e \<le> x" "x < 2 powi (e + 1)" using expo_bounds [OF x] by (simp_all add: e_def)
  have fx: "f64 x = of_int (rne s) * p" using f64_pos [OF xpos] by (simp add: e_def s_def p_def)
  have p52: "(0::rat) < 2 powi (52 - e)" and ppos: "0 < p" by (simp_all add: p_def)
  show ?thesis
  proof (cases "of_int k * (2::rat) powi j < 2 powi e")
    case True
    have "2 powi e * 2 powi (52 - e) \<le> s"
      unfolding s_def using eb(1) p52 by (intro mult_right_mono) auto
    moreover have "(2::rat) powi e * 2 powi (52 - e) = 2 powi 52" by (rule powi_mult) simp
    ultimately have "2 powi 52 \<le> s" by simp
    then have "2 powi 52 \<le> (of_int (rne s) :: rat)" by (rule rne_ge_powi) simp
    then have "2 powi 52 * p \<le> of_int (rne s) * p"
      using ppos by (intro mult_right_mono) auto
    moreover have "2 powi 52 * p = 2 powi e" unfolding p_def by (rule powi_mult) simp
    ultimately have "2 powi e \<le> f64 x" using fx by (simp only:)
    with True show ?thesis by simp
  next
    case False
    then have lo: "(2::rat) powi e \<le> of_int k * 2 powi j" by simp
    have g: "of_int k * 2 powi j * 2 powi (52 - e) = (of_int (k * 2 ^ nat (j + 52 - e)) :: rat)"
      using k lo by (rule scaled_grid)
    have "of_int k * 2 powi j * 2 powi (52 - e) \<le> s"
      unfolding s_def using a p52 by (intro mult_right_mono) auto
    then have "k * 2 ^ nat (j + 52 - e) \<le> rne s" unfolding g by (rule rne_ge)
    then have "(of_int (k * 2 ^ nat (j + 52 - e)) :: rat) \<le> of_int (rne s)" by (simp only: of_int_le_iff)
    then have "of_int (k * 2 ^ nat (j + 52 - e)) * p \<le> of_int (rne s) * p"
      using ppos by (intro mult_right_mono) auto
    moreover have "of_int (k * 2 ^ nat (j + 52 - e)) * p = of_int k * 2 powi j"
      unfolding g [symmetric] p_def by (rule unscale)
    ultimately show ?thesis using fx by (simp only:)
  qed
qed

lemma f64_zero: "f64 0 = 0"
  by (simp add: f64_def)

lemma f64_neg: "f64 (- x) = - f64 x"
  by (simp add: f64_def Let_def sgn_minus)

lemma f64_nonneg: "0 \<le> x \<Longrightarrow> 0 \<le> f64 x"
proof -
  assume x: "0 \<le> x"
  have "0 \<le> \<bar>x\<bar> * 2 powi (52 - expo \<bar>x\<bar>)" by simp
  then have "of_int 0 \<le> \<bar>x\<bar> * 2 powi (52 - expo \<bar>x\<bar>)" by simp
  then have "0 \<le> rne (\<bar>x\<bar> * 2 powi (52 - expo \<bar>x\<bar>))" by (rule rne_ge)
  then show ?thesis using x by (simp add: f64_def Let_def sgn_if)
qed

lemma normal_lo: "2 powi (- 42) \<le> x \<Longrightarrow> (2::rat) powi (- 1022) \<le> x"
proof -
  assume a: "2 powi (- 42) \<le> x"
  have "(2::rat) powi (- 1022) \<le> 2 powi (- 42)" by (intro power_int_increasing) auto
  with a show ?thesis by (rule order_trans [rotated])
qed

lemma normal_hi: "x < 2 powi 53 \<Longrightarrow> x < (2::rat) powi 1024"
proof -
  assume a: "x < 2 powi 53"
  have "(2::rat) powi 53 \<le> 2 powi 1024" by (intro power_int_increasing) auto
  with a show ?thesis by (rule less_le_trans)
qed

lemma f64_int_exact:
  assumes "0 \<le> n" "n < 2 ^ 53"
  shows "f64 (of_int n) = of_int n"
proof (cases "n = 0")
  case True
  then show ?thesis by (simp add: f64_zero)
next
  case False
  with assms have pos: "0 < n" by simp
  let ?x = "of_int n :: rat"
  have "(1::rat) \<le> ?x" using pos by simp
  then have "2 powi (- 42) \<le> ?x" by simp
  then have lo: "2 powi (- 1022) \<le> ?x" by (rule normal_lo)
  have "?x < of_int (2 ^ 53)" using assms(2) by (simp only: of_int_less_iff)
  then have "?x < 2 powi 53" by simp
  then have hi: "?x < 2 powi 1024" by (rule normal_hi)
  have "f64 ?x \<le> of_int n * 2 powi 0" by (rule f64_le [OF lo hi _ assms(2)]) simp
  moreover have "of_int n * 2 powi 0 \<le> f64 ?x" by (rule f64_ge [OF lo hi _ pos assms(2)]) simp
  ultimately show ?thesis by simp
qed


lemma Hour_val: "Hour = 3600000000000"
  by (simp add: Hour_def Second_def Nanosecond_def)

lemma quo_nonneg: "0 \<le> a \<Longrightarrow> 0 < b \<Longrightarrow> quo a b = a div b"
  by (simp add: quo_def sgn_if)

lemma rem_nonneg: "0 \<le> a \<Longrightarrow> 0 < b \<Longrightarrow> rem a b = a mod b"
  by (simp add: rem_def quo_nonneg minus_mult_div_eq_mod)

lemma quo_neg: "quo (- a) b = - quo a b"
  by (simp add: quo_def sgn_minus)

lemma rem_neg: "rem (- a) b = - rem a b"
  by (simp add: rem_def quo_neg)

lemma frac_bounds:
  assumes n: "0 < n" "n < Hour"
  shows "2 powi (- 42) \<le> f64 (of_int n / 3600000000000)"
    and "f64 (of_int n / 3600000000000) \<le> of_int (2 ^ 42 - 1) * 2 powi (- 42)"
proof -
  let ?x = "of_int n / 3600000000000 :: rat"
  have "1 \<le> n" using n(1) by simp
  then have "(1::rat) \<le> of_int n" by simp
  then have "(1::rat) / 3600000000000 \<le> ?x" by (simp add: divide_right_mono)
  moreover have "(2::rat) powi (- 42) \<le> 1 / 3600000000000" by simp
  ultimately have lo42: "2 powi (- 42) \<le> ?x" by (rule order_trans [rotated])
  have "n \<le> 3599999999999" using n(2) by (simp add: Hour_val)
  then have "(of_int n :: rat) \<le> of_int 3599999999999" by (simp only: of_int_le_iff)
  then have "?x \<le> 3599999999999 / 3600000000000" by (simp add: divide_right_mono)
  moreover have "(3599999999999::rat) / 3600000000000 \<le> of_int (2 ^ 42 - 1) * 2 powi (- 42)" by simp
  ultimately have hi42: "?x \<le> of_int (2 ^ 42 - 1) * 2 powi (- 42)" by (rule order_trans)
  have "of_int (2 ^ 42 - 1) * (2::rat) powi (- 42) < 2 powi 53" by simp
  with hi42 have "?x < 2 powi 53" by (rule le_less_trans)
  then have hi: "?x < 2 powi 1024" by (rule normal_hi)
  have lo: "2 powi (- 1022) \<le> ?x" using lo42 by (rule normal_lo)
  have "of_int 1 * 2 powi (- 42) \<le> f64 ?x"
    by (rule f64_ge [OF lo hi]) (use lo42 in simp_all)
  then show "2 powi (- 42) \<le> f64 ?x" by simp
  show "f64 ?x \<le> of_int (2 ^ 42 - 1) * 2 powi (- 42)"
    by (rule f64_le [OF lo hi hi42]) simp
qed

lemma frac_bound_tight:
  assumes n: "0 < n" "n < Hour"
  shows "f64 (of_int n / 3600000000000) \<le> of_int (2 ^ 45 - 9) * 2 powi (- 45)"
proof -
  let ?x = "of_int n / 3600000000000 :: rat"
  have "1 \<le> n" using n(1) by simp
  then have "(1::rat) \<le> of_int n" by simp
  then have "(1::rat) / 3600000000000 \<le> ?x" by (simp add: divide_right_mono)
  moreover have "(2::rat) powi (- 42) \<le> 1 / 3600000000000" by simp
  ultimately have lo42: "2 powi (- 42) \<le> ?x" by (rule order_trans [rotated])
  have "n \<le> 3599999999999" using n(2) by (simp add: Hour_val)
  then have "(of_int n :: rat) \<le> of_int 3599999999999" by (simp only: of_int_le_iff)
  then have "?x \<le> 3599999999999 / 3600000000000" by (simp add: divide_right_mono)
  moreover have "(3599999999999::rat) / 3600000000000 \<le> of_int (2 ^ 45 - 9) * 2 powi (- 45)" by simp
  ultimately have hi45: "?x \<le> of_int (2 ^ 45 - 9) * 2 powi (- 45)" by (rule order_trans)
  have "of_int (2 ^ 45 - 9) * (2::rat) powi (- 45) < 2 powi 53" by simp
  with hi45 have "?x < 2 powi 53" by (rule le_less_trans)
  then have hi: "?x < 2 powi 1024" by (rule normal_hi)
  have lo: "2 powi (- 1022) \<le> ?x" using lo42 by (rule normal_lo)
  show "f64 ?x \<le> of_int (2 ^ 45 - 9) * 2 powi (- 45)"
    by (rule f64_le [OF lo hi hi45]) simp
qed

lemma Hours_unfold:
  "Hours d = f64 (f64 (of_int (quo d Hour)) + f64 (f64 (of_int (rem d Hour)) / 3600000000000))"
  by (simp add: Hours_def Let_def f64_add_def f64_div_def float64_def)

lemma Hours_upper_wide:
  assumes h: "2048 \<le> h" "h \<le> 4095" and fr: "0 \<le> fr" "fr \<le> of_int (2 ^ 45 - 9) * 2 powi (- 45)"
  shows "f64 (of_int h + fr) < of_int h + 1"
proof -
  let ?x = "of_int h + fr :: rat"
  have hr: "(2048::rat) \<le> of_int h" "(of_int h :: rat) \<le> 4095" using h by simp_all
  have x1: "2048 \<le> ?x" using hr(1) fr(1) by simp
  have fr1: "fr \<le> 1 - 9 / 2 ^ 45" using fr(2) by simp
  have x2: "?x \<le> of_int h + 1 - 9 / 2 ^ 45" using fr1 by simp
  then have x3: "?x < 4096" using hr(2) by simp
  have e: "expo ?x = 11" by (rule expo_eq) (use x1 x3 in simp_all)
  have xpos: "0 < ?x" using x1 by simp
  let ?s = "?x * 2 powi 41"
  have "?s \<le> (of_int h + 1 - 9 / 2 ^ 45) * 2 powi 41"
    using x2 by (intro mult_right_mono) simp_all
  also have "\<dots> = of_int ((h + 1) * 2 ^ 41 - 1) + 7 / 16" by (simp add: algebra_simps)
  also have "\<dots> < of_int ((h + 1) * 2 ^ 41 - 1) + 1 / 2" by simp
  finally have "rne ?s \<le> (h + 1) * 2 ^ 41 - 1" by (rule rne_le_half)
  then have "(of_int (rne ?s) :: rat) \<le> of_int ((h + 1) * 2 ^ 41 - 1)" by (simp only: of_int_le_iff)
  then have "of_int (rne ?s) * (2::rat) powi (- 41) \<le> of_int ((h + 1) * 2 ^ 41 - 1) * 2 powi (- 41)"
    by (intro mult_right_mono) simp_all
  also have "\<dots> < of_int h + 1" by (simp add: algebra_simps)
  finally have "of_int (rne ?s) * (2::rat) powi (- 41) < of_int h + 1" .
  moreover have "f64 ?x = of_int (rne ?s) * 2 powi (- 41)" using f64_pos [OF xpos] by (simp add: e)
  ultimately show ?thesis by simp
qed

lemma Hours_bounds:
  assumes d: "0 \<le> d" "d < 4096 * Hour"
  shows "of_int (d div Hour) \<le> Hours d \<and> Hours d < of_int (d div Hour) + 1"
proof -
  define h where "h = d div Hour"
  define n where "n = d mod Hour"
  define fr where "fr = f64 (of_int n / 3600000000000)"
  have Hpos: "0 < Hour" by (simp add: Hour_val)
  have h0: "0 \<le> h" using d(1) Hpos by (simp add: h_def pos_imp_zdiv_nonneg_iff)
  have "d \<le> 14745599999999999" using d(2) by (simp add: Hour_val)
  then have "d div 3600000000000 \<le> 14745599999999999 div 3600000000000" by (rule zdiv_mono1) simp
  then have h1: "h \<le> 4095" by (simp add: h_def Hour_val)
  note h = h0 h1
  have n: "0 \<le> n" "n < Hour" using Hpos by (simp_all add: n_def)
  have fh: "f64 (of_int h) = of_int h" using h by (intro f64_int_exact) auto
  have fn: "f64 (of_int n) = of_int n" using n by (intro f64_int_exact) (auto simp: Hour_val)
  have H: "Hours d = f64 (of_int h + fr)"
    using d(1) Hpos by (simp add: Hours_unfold quo_nonneg rem_nonneg h_def [symmetric] n_def [symmetric] fh fn fr_def)
  show ?thesis
  proof (cases "n = 0")
    case True
    then have "fr = 0" by (simp add: fr_def f64_zero)
    then show ?thesis using H fh by (simp add: h_def)
  next
    case False
    with n have npos: "0 < n" by simp
    have fr: "2 powi (- 42) \<le> fr" "fr \<le> of_int (2 ^ 42 - 1) * 2 powi (- 42)"
      unfolding fr_def using frac_bounds [OF npos n(2)] by simp_all
    have frt: "fr \<le> of_int (2 ^ 45 - 9) * 2 powi (- 45)"
      unfolding fr_def using npos n(2) by (rule frac_bound_tight)
    have "(0::rat) \<le> 2 powi (- 42)" by simp
    then have frpos: "0 \<le> fr" using fr(1) by (rule order_trans)
    let ?x = "of_int h + fr :: rat"
    have hr: "(0::rat) \<le> of_int h" "(of_int h :: rat) \<le> 4095" using h by simp_all
    have lo42: "2 powi (- 42) \<le> ?x" using fr(1) hr(1) by linarith
    have up: "?x \<le> of_int ((h + 1) * 2 ^ 42 - 1) * 2 powi (- 42)"
      using fr(2) by (simp add: algebra_simps)
    have below: "of_int ((h + 1) * 2 ^ 42 - 1) * (2::rat) powi (- 42) < of_int h + 1"
      by (simp add: algebra_simps)
    have lo: "2 powi (- 1022) \<le> ?x" using lo42 by (rule normal_lo)
    have "?x < 2 powi 53" using up below hr(2) by simp
    then have hi: "?x < 2 powi 1024" by (rule normal_hi)
    have U: "f64 ?x < of_int h + 1"
    proof (cases "h \<le> 2047")
      case True
      then have klt: "(h + 1) * 2 ^ 42 - 1 < 2 ^ 53" by simp
      have "f64 ?x \<le> of_int ((h + 1) * 2 ^ 42 - 1) * 2 powi (- 42)"
        by (rule f64_le [OF lo hi up klt])
      then show ?thesis using below by (rule le_less_trans)
    next
      case False
      then have "2048 \<le> h" by simp
      then show ?thesis using h(2) frpos frt by (rule Hours_upper_wide)
    qed
    have L: "of_int h \<le> f64 ?x"
    proof (cases "h = 0")
      case True
      have "0 \<le> ?x" using hr(1) frpos by simp
      then show ?thesis using True f64_nonneg [of ?x] by simp
    next
      case False
      with h have hpos: "0 < h" by simp
      have "of_int h * 2 powi 0 \<le> ?x" using frpos by simp
      then have "of_int h * 2 powi 0 \<le> f64 ?x"
        using hpos h(2) by (intro f64_ge [OF lo hi]) auto
      then show ?thesis by simp
    qed
    show ?thesis using L U H by (simp add: h_def)
  qed
qed

section \<open>The hours of a duration\<close>

lemma int64_neg: "int64 (- f) = - int64 f"
  by (simp add: int64_def)

lemma Hours_neg: "Hours (- d) = - Hours d"
proof -
  define A where "A = f64 (of_int (quo d Hour))"
  define B where "B = f64 (f64 (of_int (rem d Hour)) / 3600000000000)"
  have "Hours (- d) = f64 (- A - B)"
    by (simp add: Hours_unfold quo_neg rem_neg f64_neg A_def B_def)
  also have "- A - B = - (A + B)" by simp
  also have "f64 (- (A + B)) = - f64 (A + B)" by (rule f64_neg)
  also have "f64 (A + B) = Hours d" by (simp add: Hours_unfold A_def B_def)
  finally show ?thesis .
qed

lemma int64_Hours_nonneg:
  assumes "0 \<le> d" "d < 4096 * Hour"
  shows "int64 (Hours d) = d div Hour"
proof -
  have b: "of_int (d div Hour) \<le> Hours d" "Hours d < of_int (d div Hour) + 1"
    using Hours_bounds [OF assms] by simp_all
  have "0 \<le> d div Hour" using assms(1) by (simp add: Hour_val pos_imp_zdiv_nonneg_iff)
  then have "(0::rat) \<le> of_int (d div Hour)" by simp
  with b(1) have "0 \<le> Hours d" by simp
  moreover have "\<lfloor>Hours d\<rfloor> = d div Hour" using b by (simp add: floor_eq_iff)
  ultimately show ?thesis by (simp add: int64_def)
qed

lemma int64_Hours_exact:
  assumes "\<bar>d\<bar> < 4096 * Hour"
  shows "int64 (Hours d) = quo d Hour"
proof (cases "0 \<le> d")
  case True
  then show ?thesis using assms int64_Hours_nonneg [of d] by (simp add: quo_nonneg Hour_val)
next
  case False
  then have "0 \<le> - d" "- d < 4096 * Hour" using assms by simp_all
  then have "int64 (Hours (- d)) = quo (- d) Hour"
    using int64_Hours_nonneg [of "- d"] by (simp add: quo_nonneg Hour_val)
  then show ?thesis by (simp add: Hours_neg int64_neg quo_neg)
qed



lemma Hours_rounds_up: "Hours (4104 * Hour - 1) = 4104"
proof -
  define fr where "fr = f64 (of_int 3599999999999 / 3600000000000)"
  have q: "quo (4104 * Hour - 1) Hour = 4103" by (simp add: quo_def Hour_val)
  have r: "rem (4104 * Hour - 1) Hour = 3599999999999" by (simp add: rem_def q) (simp add: Hour_val)
  have f1: "f64 (of_int 4103) = of_int 4103" by (rule f64_int_exact) simp_all
  have f2: "f64 (of_int 3599999999999) = of_int 3599999999999" by (rule f64_int_exact) simp_all
  have H: "Hours (4104 * Hour - 1) = f64 (4103 + fr)"
    unfolding Hours_unfold q r f1 f2 fr_def by simp
  have up: "fr \<le> of_int (2 ^ 42 - 1) * 2 powi (- 42)"
    unfolding fr_def by (rule frac_bounds(2)) (simp_all add: Hour_val)
  let ?y = "of_int 3599999999999 / 3600000000000 :: rat"
  have ylo: "2 powi (- 1022) \<le> ?y" by (rule normal_lo) simp
  have yhi: "?y < 2 powi 1024" by (rule normal_hi) simp
  have low: "of_int (2 ^ 43 - 3) * 2 powi (- 43) \<le> fr"
    unfolding fr_def by (rule f64_ge [OF ylo yhi]) simp_all
  let ?x = "4103 + fr :: rat"
  have x1: "4104 - 3 / 2 ^ 43 \<le> ?x" using low by simp
  have x2: "?x \<le> 4104 - 1 / 2 ^ 42" using up by simp
  have e: "expo ?x = 12" by (rule expo_eq) (use x1 x2 in simp_all)
  have xpos: "0 < ?x" using x1 by simp
  let ?s = "?x * 2 powi 40"
  have "of_int (4104 * 2 ^ 40) - 1 / 2 < ?s" using x1 by simp
  then have a: "4104 * 2 ^ 40 \<le> rne ?s" by (rule rne_ge_half)
  have "?s \<le> of_int (4104 * 2 ^ 40)" using x2 by simp
  then have b: "rne ?s \<le> 4104 * 2 ^ 40" by (rule rne_le)
  from a b have "rne ?s = 4104 * 2 ^ 40" by simp
  then have "f64 ?x = 4104" using f64_pos [OF xpos] by (simp add: e)
  then show ?thesis using H by simp
qed

section \<open>C1: the address dialed for a wildcard host\<close>

lemma Split_nonempty: "Split s sep \<noteq> []"
  by (induction s) (auto split: list.splits)

lemma Split_single: "(length (Split s sep) = 1) = (sep \<notin> set s)"
proof (induction s)
  case Nil
  show ?case by simp
next
  case (Cons c s)
  show ?case
  proof (cases "c = sep")
    case True
    then show ?thesis using Split_nonempty [of s sep] by (cases "Split s sep") auto
  next
    case False
    then show ?thesis using Cons Split_nonempty [of s sep] by (cases "Split s sep") auto
  qed
qed

text \<open>
  C1. For the host \<^verbatim>\<open>*.example.com\<close> the claim asks for the address
  \<^verbatim>\<open>abcdefzhki.example.com:443\<close>. Line 82 has already appended \<^verbatim>\<open>:443\<close> when line 86
  appends it again: the address dialed carries the port twice.
\<close>

theorem wildcard_dials_double_port:
  "Dialed (checkHostHttps dial initNow timeNow ''*.example.com'' warnDays)
     = [''abcdefzhki.example.com:443:443'']"
  by (simp add: checkHostHttps_def dialAddress_def Let_def split: DialResult.split)

section \<open>What a successful inspection sends\<close>

lemma Sent_Conn:
  assumes "host \<noteq> []" "hd host \<noteq> CHR ''@''" "dial (dialAddress host) = Conn chs"
  shows "Sent (checkHostHttps dial initNow timeNow host warnDays)
    = chainsLoop initNow timeNow warnDays (dialAddress host) chs"
  using assms by (cases host) (simp_all add: checkHostHttps_def Let_def)

lemma chainLoop_concat:
  "chainLoop initNow timeNow warnDays host len k certs =
     concat (map (\<lambda>i. checkExpiration timeNow warnDays host (certs ! i)
                       @ checkSigAlg initNow host len (k + i) (certs ! i)) [0..<length certs])"
proof (induction certs arbitrary: k)
  case Nil
  show ?case by simp
next
  case (Cons cert rest)
  have "[0..<length (cert # rest)] = 0 # map Suc [0..<length rest]"
    by (simp add: upt_conv_Cons map_Suc_upt del: upt_Suc)
  then show ?case using Cons [of "Suc k"] by (simp add: comp_def)
qed

lemma chainsLoop_concat:
  "chainsLoop initNow timeNow warnDays host chs =
     concat (map (\<lambda>chain. chainLoop initNow timeNow warnDays host (length chain) 0 chain) chs)"
  by (induction chs) simp_all

lemma Sent_per_certificate:
  assumes "host \<noteq> []" "hd host \<noteq> CHR ''@''" "dial (dialAddress host) = Conn chs"
  shows "Sent (checkHostHttps dial initNow timeNow host warnDays) =
     concat (map (\<lambda>chain. concat (map (\<lambda>i.
         checkExpiration timeNow warnDays (dialAddress host) (chain ! i)
         @ checkSigAlg initNow (dialAddress host) (length chain) i (chain ! i))
       [0..<length chain])) chs)"
  unfolding Sent_Conn [where dial = dial, OF assms] chainsLoop_concat chainLoop_concat by simp

lemma errSunsetAlg_inj: "(errSunsetAlg a = errSunsetAlg b) = (a = b)"
  by (simp add: errSunsetAlg_def)

lemma sunset_not_expiry:
  "errExpiringShortly n \<noteq> errSunsetAlg a" "errExpiringSoon n \<noteq> errSunsetAlg a"
  "errSunsetAlg a \<noteq> errExpiringShortly n" "errSunsetAlg a \<noteq> errExpiringSoon n"
  by (simp_all add: errExpiringShortly_def errExpiringSoon_def errSunsetAlg_def)

lemma sunset_in_checkExpiration:
  "\<lparr>WarnMsg = errSunsetAlg nm, Host = h\<rparr> \<notin> set (checkExpiration timeNow warnDays host cert)"
  by (simp add: checkExpiration_def sunset_not_expiry)

lemma sunset_in_checkSigAlg:
  "(\<lparr>WarnMsg = errSunsetAlg nm, Host = host\<rparr> \<in> set (checkSigAlg initNow host len i cert)) =
   (\<exists>alg. sunsetSigAlgs initNow (SignatureAlgorithm cert) = Some alg \<and> name alg = nm
      \<and> Suc i \<noteq> len \<and> sunsetsAt alg \<le> NotAfter cert)"
proof (cases "sunsetSigAlgs initNow (SignatureAlgorithm cert)")
  case None
  then show ?thesis by (simp add: checkSigAlg_def)
next
  case (Some alg)
  have "(int i \<noteq> int len - 1) = (Suc i \<noteq> len)" by auto
  then show ?thesis using Some
    by (auto simp: checkSigAlg_def errSunsetAlg_inj Equal_def After_def)
qed

section \<open>C5: a handshake that fails\<close>

lemma HasPrefix_iff: "HasPrefix s p = (\<exists>ss. s = p @ ss)"
  by (induction s p rule: HasPrefix.induct) auto

lemma Contains_iff: "Contains s sub = (\<exists>ps ss. s = ps @ sub @ ss)"
proof (induction s)
  case Nil
  show ?case by auto
next
  case (Cons c s)
  show ?case
  proof
    assume "Contains (c # s) sub"
    then consider "HasPrefix (c # s) sub" | "Contains s sub" by auto
    then show "\<exists>ps ss. c # s = ps @ sub @ ss"
    proof cases
      case 1
      then obtain ss where "c # s = sub @ ss" by (auto simp: HasPrefix_iff)
      then have "c # s = [] @ sub @ ss" by simp
      then show ?thesis by blast
    next
      case 2
      then obtain ps ss where "s = ps @ sub @ ss" using Cons by auto
      then have "c # s = (c # ps) @ sub @ ss" by simp
      then show ?thesis by blast
    qed
  next
    assume "\<exists>ps ss. c # s = ps @ sub @ ss"
    then obtain ps ss where e: "c # s = ps @ sub @ ss" by auto
    show "Contains (c # s) sub"
    proof (cases ps)
      case Nil
      then have "HasPrefix (c # s) sub" using e by (auto simp: HasPrefix_iff)
      then show ?thesis by simp
    next
      case (Cons a ps')
      then have "s = ps' @ sub @ ss" using e by simp
      then have "Contains s sub" using Cons.IH by auto
      then show ?thesis by simp
    qed
  qed
qed

text \<open>
  C5, as amended. When the dial of a host fails, the host is dialed once and a finding is
  sent if and only if the text of the error contains \<^verbatim>\<open>certificate has expired\<close>: then the
  one finding sent carries the fixed message \<^verbatim>\<open>SSLCertificate has expired\<close>. For every other
  error text nothing is sent, and one line is logged. The test is on the text alone: it
  holds for the error of an expired certificate, and also for every other error whose text
  has these words.
\<close>

theorem handshake_failure_findings:
  assumes "host \<noteq> []" "hd host \<noteq> CHR ''@''" "dial (dialAddress host) = DialError err"
  shows "Sent (checkHostHttps dial initNow timeNow host warnDays) =
           (if Contains err ''certificate has expired''
            then [\<lparr>WarnMsg = errExpired, Host = dialAddress host\<rparr>] else [])
       \<and> Logged (checkHostHttps dial initNow timeNow host warnDays) =
           (if Contains err ''certificate has expired''
            then [] else [''WARN skip check '' @ dialAddress host @ '' '' @ err])
       \<and> Dialed (checkHostHttps dial initNow timeNow host warnDays) = [dialAddress host]"
  using assms by (cases host) (simp_all add: checkHostHttps_def Let_def)

theorem handshake_failure_findings_witness:
  "Sent (checkHostHttps (\<lambda>a. DialError ''dial tcp: lookup example.com: no such host'') 0 0
           ''example.com'' 30) = []
   \<and> Sent (checkHostHttps (\<lambda>a. DialError ''x509: certificate has expired or is not yet valid'') 0 0
           ''example.com'' 30)
       = [\<lparr>WarnMsg = ''SSLCertificate has expired'', Host = ''example.com:443''\<rparr>]"
proof -
  have h: "''example.com'' \<noteq> []" "hd ''example.com'' \<noteq> CHR ''@''" by simp_all
  have a: "dialAddress ''example.com'' = ''example.com:443''"
    by (simp add: dialAddress_def Let_def)
  have d1: "(\<lambda>a. DialError ''dial tcp: lookup example.com: no such host'') (dialAddress ''example.com'')
      = DialError ''dial tcp: lookup example.com: no such host''" by simp
  have d2: "(\<lambda>a. DialError ''x509: certificate has expired or is not yet valid'') (dialAddress ''example.com'')
      = DialError ''x509: certificate has expired or is not yet valid''" by simp
  show ?thesis
    using handshake_failure_findings
        [where dial = "\<lambda>a. DialError ''dial tcp: lookup example.com: no such host''", OF h d1, of 0 0 30]
      handshake_failure_findings
        [where dial = "\<lambda>a. DialError ''x509: certificate has expired or is not yet valid''", OF h d2, of 0 0 30]
    by (simp add: a errExpired_def)
qed

text \<open>
  C5 fails as stated at two errors that are not the error of an expired certificate. The
  host \<^verbatim>\<open>certificate has expired\<close>, a line of the hosts file, has no address: the error is
  \<^verbatim>\<open>no such host\<close> and its text quotes the host. And for a certificate that is not yet
  valid, Go gives the text \<^verbatim>\<open>certificate has expired or is not yet valid\<close>, here with the
  detail \<^verbatim>\<open>current time ... is before ...\<close>. Both times the finding
  \<^verbatim>\<open>SSLCertificate has expired\<close> is sent.
\<close>

theorem expired_text_counterexample:
  "Sent (checkHostHttps
      (\<lambda>a. DialError ''dial tcp: lookup certificate has expired: no such host'')
      0 0 ''certificate has expired'' 30)
     = [\<lparr>WarnMsg = ''SSLCertificate has expired'', Host = ''certificate has expired:443''\<rparr>]
   \<and> Sent (checkHostHttps
      (\<lambda>a. DialError (''tls: failed to verify certificate: x509: certificate has expired or is not yet valid: ''
         @ ''current time 2026-10-31T00:00:00Z is before 2027-01-01T00:00:00Z''))
      0 0 ''example.com'' 30)
     = [\<lparr>WarnMsg = ''SSLCertificate has expired'', Host = ''example.com:443''\<rparr>]"
  by (simp add: checkHostHttps_def dialAddress_def Let_def errExpired_def)

section \<open>C6: the signature algorithm check\<close>

text \<open>
  C6. After a handshake that succeeds, a finding that names the signature algorithm \<open>nm\<close>
  is among the findings sent if and only if some certificate of some verified chain has
  an algorithm of the table with that name, is not at the last (root) position of its
  chain, and has \<open>NotAfter\<close> at or after the sunset date of the algorithm. For the
  certificate at index \<open>i\<close> of a chain of length \<open>len\<close>, the signature algorithm check sends
  that one finding under these three conditions and nothing otherwise. Neither the time
  of the check nor the warn window occur in the conditions: the finding does not depend
  on an expiry finding.
\<close>

theorem sunset_finding_iff:
  assumes "host \<noteq> []" "hd host \<noteq> CHR ''@''" "dial (dialAddress host) = Conn chs"
  shows "((\<lparr>WarnMsg = errSunsetAlg nm, Host = dialAddress host\<rparr>
            \<in> set (Sent (checkHostHttps dial initNow timeNow host warnDays))) =
         (\<exists>chain \<in> set chs. \<exists>i < length chain. \<exists>alg.
            sunsetSigAlgs initNow (SignatureAlgorithm (chain ! i)) = Some alg \<and> name alg = nm
            \<and> Suc i \<noteq> length chain \<and> sunsetsAt alg \<le> NotAfter (chain ! i)))
       \<and> checkSigAlg initNow (dialAddress host) len i cert =
           (case sunsetSigAlgs initNow (SignatureAlgorithm cert) of
              None \<Rightarrow> []
            | Some alg \<Rightarrow>
                if Suc i \<noteq> len \<and> sunsetsAt alg \<le> NotAfter cert
                then [\<lparr>WarnMsg = errSunsetAlg (name alg), Host = dialAddress host\<rparr>] else [])"
proof
  show "(\<lparr>WarnMsg = errSunsetAlg nm, Host = dialAddress host\<rparr>
            \<in> set (Sent (checkHostHttps dial initNow timeNow host warnDays))) =
         (\<exists>chain \<in> set chs. \<exists>i < length chain. \<exists>alg.
            sunsetSigAlgs initNow (SignatureAlgorithm (chain ! i)) = Some alg \<and> name alg = nm
            \<and> Suc i \<noteq> length chain \<and> sunsetsAt alg \<le> NotAfter (chain ! i))"
    unfolding Sent_per_certificate [where dial = dial, OF assms]
    by (simp add: sunset_in_checkExpiration sunset_in_checkSigAlg Bex_def)
  have "(int i \<noteq> int len - 1) = (Suc i \<noteq> len)" by auto
  then show "checkSigAlg initNow (dialAddress host) len i cert =
           (case sunsetSigAlgs initNow (SignatureAlgorithm cert) of
              None \<Rightarrow> []
            | Some alg \<Rightarrow>
                if Suc i \<noteq> len \<and> sunsetsAt alg \<le> NotAfter cert
                then [\<lparr>WarnMsg = errSunsetAlg (name alg), Host = dialAddress host\<rparr>] else [])"
    by (cases "sunsetSigAlgs initNow (SignatureAlgorithm cert)")
      (auto simp: checkSigAlg_def Equal_def After_def)
qed

theorem sunset_finding_iff_witness:
  "\<lparr>WarnMsg = ''expires after the sunset date for its signature algorithm '' @ [CHR 0x27]
        @ ''SHA1 with RSA'' @ [CHR 0x27] @ ''.'', Host = ''example.com:443''\<rparr>
     \<in> set (Sent (checkHostHttps
          (\<lambda>a. Conn [[\<lparr>NotAfter = sunset2017, SignatureAlgorithm = SHA1WithRSA\<rparr>,
                       \<lparr>NotAfter = sunset2017, SignatureAlgorithm = SHA1WithRSA\<rparr>]])
          0 0 ''example.com'' 0))
   \<and> length (Sent (checkHostHttps
          (\<lambda>a. Conn [[\<lparr>NotAfter = sunset2017, SignatureAlgorithm = SHA1WithRSA\<rparr>,
                       \<lparr>NotAfter = sunset2017, SignatureAlgorithm = SHA1WithRSA\<rparr>]])
          0 0 ''example.com'' 0)) = 1"
proof -
  let ?c = "\<lparr>NotAfter = sunset2017, SignatureAlgorithm = SHA1WithRSA\<rparr>"
  let ?dial = "\<lambda>a::string. Conn [[?c, ?c]]"
  have h: "''example.com'' \<noteq> []" "hd ''example.com'' \<noteq> CHR ''@''" by simp_all
  have a: "dialAddress ''example.com'' = ''example.com:443''"
    by (simp add: dialAddress_def Let_def)
  have d: "?dial (dialAddress ''example.com'') = Conn [[?c, ?c]]" by simp
  have w: "0 < sunset2017" by (simp add: sunset2017_def Second_def Nanosecond_def)
  have e: "\<exists>chain \<in> set [[?c, ?c]]. \<exists>i < length chain. \<exists>alg.
            sunsetSigAlgs 0 (SignatureAlgorithm (chain ! i)) = Some alg \<and> name alg = ''SHA1 with RSA''
            \<and> Suc i \<noteq> length chain \<and> sunsetsAt alg \<le> NotAfter (chain ! i)"
    by (rule bexI [of _ "[?c, ?c]"], rule exI [of _ 0]) (simp_all add: sunsetSigAlgs_def)
  have m: "\<lparr>WarnMsg = errSunsetAlg ''SHA1 with RSA'', Host = dialAddress ''example.com''\<rparr>
     \<in> set (Sent (checkHostHttps ?dial 0 0 ''example.com'' 0))"
    using sunset_finding_iff [where dial = ?dial, OF h d, of "''SHA1 with RSA''" 0 0 0, THEN conjunct1] e
    by simp
  have l: "length (Sent (checkHostHttps ?dial 0 0 ''example.com'' 0)) = 1"
    using w by (simp add: checkHostHttps_def Let_def a chainLoop.simps checkExpiration_def checkSigAlg_def
      sunsetSigAlgs_def After_def Equal_def AddDate_days_def)
  show ?thesis using m l by (simp add: a errSunsetAlg_def)
qed

section \<open>The expiry check of one certificate\<close>


lemma Sub_exact: "\<bar>t - u\<bar> < 4096 * Hour \<Longrightarrow> Sub t u = t - u"
proof -
  assume "\<bar>t - u\<bar> < 4096 * Hour"
  then have "t - u < 14745600000000000" "- 14745600000000000 < t - u"
    by (simp_all add: Hour_val abs_less_iff)
  then show ?thesis by (simp add: Sub_def Let_def maxDuration_def minDuration_def)
qed

lemma expiresIn_exact:
  assumes "\<bar>NotAfter cert - timeNow\<bar> < 4096 * Hour"
  shows "expiresIn timeNow cert = quo (NotAfter cert - timeNow) Hour"
  using assms by (simp add: expiresIn_def Sub_exact int64_Hours_exact)


lemma quo_pos_div: "0 \<le> a \<Longrightarrow> quo a 24 = a div 24"
  by (rule quo_nonneg) simp_all

lemma floor_hours: "\<lfloor>(of_int a :: rat) / of_int Hour\<rfloor> = a div Hour"
  by (rule floor_divide_of_int_eq)

lemma floor_days: "\<lfloor>(of_int a :: rat) / of_int Hour / 24\<rfloor> = a div Hour div 24"
proof -
  have "(of_int a :: rat) / of_int Hour / 24 = of_int a / of_int (Hour * 24)" by simp
  then have "\<lfloor>(of_int a :: rat) / of_int Hour / 24\<rfloor> = a div (Hour * 24)"
    by (simp only: floor_divide_of_int_eq)
  also have "\<dots> = a div Hour div 24" by (rule zdiv_zmult2_eq) simp
  finally show ?thesis .
qed

lemma Hours_rounds_up_numeral: "Hours 14774399999999999 = 4104"
  using Hours_rounds_up by (simp add: Hour_val)

lemma FormatInt_examples:
  "FormatInt 0 = ''0''" "FormatInt 10 = ''10''" "FormatInt 20 = ''20''" "FormatInt 24 = ''24''"
  "FormatInt 47 = ''47''" "FormatInt 171 = ''171''" "FormatInt (- 1) = ''-1''"
  by (simp_all add: FormatInt_def digits.simps digit_char_def)

lemma expired_inside_window:
  "NotAfter cert < timeNow \<Longrightarrow> 0 \<le> warnDays \<Longrightarrow> After (AddDate_days timeNow warnDays) (NotAfter cert)"
  "NotAfter cert \<le> timeNow \<Longrightarrow> 0 < warnDays \<Longrightarrow> After (AddDate_days timeNow warnDays) (NotAfter cert)"
proof -
  assume a: "NotAfter cert < timeNow" "0 \<le> warnDays"
  have "0 \<le> warnDays * 24 * Hour" using a(2) by (simp add: Hour_val)
  then show "After (AddDate_days timeNow warnDays) (NotAfter cert)"
    unfolding After_def AddDate_days_def using a(1) by linarith
next
  assume a: "NotAfter cert \<le> timeNow" "0 < warnDays"
  have "0 < warnDays * 24 * Hour" using a(2) by (simp add: Hour_val)
  then show "After (AddDate_days timeNow warnDays) (NotAfter cert)"
    unfolding After_def AddDate_days_def using a(1) by linarith
qed


section \<open>C4: the expiry findings of an inspection\<close>

lemma expiry_prefix:
  "HasPrefix (errExpiringShortly n) ''expires in ''"
  "HasPrefix (errExpiringSoon n) ''expires in ''"
  "\<not> HasPrefix (errSunsetAlg a) ''expires in ''"
  by (simp_all add: errExpiringShortly_def errExpiringSoon_def errSunsetAlg_def)

lemma filter_checkExpiration:
  "filter (\<lambda>r. HasPrefix (WarnMsg r) ''expires in '') (checkExpiration timeNow warnDays host cert)
     = checkExpiration timeNow warnDays host cert"
  by (simp add: checkExpiration_def expiry_prefix)

lemma filter_checkSigAlg:
  "filter (\<lambda>r. HasPrefix (WarnMsg r) ''expires in '') (checkSigAlg initNow host len i cert) = []"
  by (cases "sunsetSigAlgs initNow (SignatureAlgorithm cert)")
    (simp_all add: checkSigAlg_def expiry_prefix)

lemma filter_chainLoop:
  "filter (\<lambda>r. HasPrefix (WarnMsg r) ''expires in '')
       (chainLoop initNow timeNow warnDays host len k certs)
     = concat (map (checkExpiration timeNow warnDays host) certs)"
  by (induction certs arbitrary: k) (simp_all add: filter_checkExpiration filter_checkSigAlg)

lemma filter_chainsLoop:
  "filter (\<lambda>r. HasPrefix (WarnMsg r) ''expires in '')
       (chainsLoop initNow timeNow warnDays host chs)
     = concat (map (checkExpiration timeNow warnDays host) (concat chs))"
  by (induction chs) (simp_all add: filter_chainLoop)

lemma checkExpiration_eq:
  "checkExpiration timeNow warnDays host cert =
     (if After (AddDate_days timeNow warnDays) (NotAfter cert)
      then [\<lparr>WarnMsg = (if expiresIn timeNow cert \<le> 48
                         then errExpiringShortly (expiresIn timeNow cert)
                         else errExpiringSoon (expiresIn timeNow cert div 24)),
             Host = host\<rparr>]
      else [])"
  by (simp add: checkExpiration_def quo_pos_div)

lemma concat_checkExpiration:
  "concat (map (checkExpiration timeNow warnDays host) certs) =
     map (\<lambda>cert. \<lparr>WarnMsg = (if expiresIn timeNow cert \<le> 48
                         then errExpiringShortly (expiresIn timeNow cert)
                         else errExpiringSoon (expiresIn timeNow cert div 24)),
             Host = host\<rparr>)
       (filter (\<lambda>cert. After (AddDate_days timeNow warnDays) (NotAfter cert)) certs)"
  by (induction certs) (simp_all add: checkExpiration_eq)

text \<open>
  C4, as amended. After a handshake that succeeds, the expiry findings sent (the findings
  whose message begins with \<^verbatim>\<open>expires in\<close>) are, in the order of the chains, exactly one
  for each occurrence in a verified chain of a certificate whose \<open>NotAfter\<close> is before
  \<open>timeNow\<close> plus the warn window; a certificate that occurs in two verified chains is
  reported once for each chain. With \<open>N\<close> the float64 hours of \<open>NotAfter - timeNow\<close> cut
  toward zero, the message is \<^verbatim>\<open>expires in N hours\<close> when \<open>N \<le> 48\<close> and
  \<^verbatim>\<open>expires in N/24 days\<close> otherwise. For a certificate that has not expired and has
  less than 4096 hours left, \<open>N\<close> is the floor of the hours remaining and \<open>N/24\<close> the
  floor of the hours remaining over 24. For a certificate that expired less than 4096
  hours ago, \<open>N\<close> is minus the floor of the hours since expiry.
\<close>

theorem expiry_findings_sent:
  assumes "host \<noteq> []" "hd host \<noteq> CHR ''@''" "dial (dialAddress host) = Conn chs"
  shows "filter (\<lambda>r. HasPrefix (WarnMsg r) ''expires in '')
           (Sent (checkHostHttps dial initNow timeNow host warnDays)) =
         map (\<lambda>cert. \<lparr>WarnMsg = (if expiresIn timeNow cert \<le> 48
                             then errExpiringShortly (expiresIn timeNow cert)
                             else errExpiringSoon (expiresIn timeNow cert div 24)),
                       Host = dialAddress host\<rparr>)
           (filter (\<lambda>cert. After (AddDate_days timeNow warnDays) (NotAfter cert)) (concat chs))
       \<and> (0 \<le> NotAfter cert - timeNow \<and> NotAfter cert - timeNow < 4096 * Hour \<longrightarrow>
            expiresIn timeNow cert = \<lfloor>(of_int (NotAfter cert - timeNow) :: rat) / of_int Hour\<rfloor>
            \<and> expiresIn timeNow cert div 24
                = \<lfloor>(of_int (NotAfter cert - timeNow) :: rat) / of_int Hour / 24\<rfloor>)
       \<and> (NotAfter cert - timeNow < 0 \<and> - (4096 * Hour) < NotAfter cert - timeNow \<longrightarrow>
            expiresIn timeNow cert = - \<lfloor>(of_int (timeNow - NotAfter cert) :: rat) / of_int Hour\<rfloor>)"
proof (intro conjI impI)
  show "filter (\<lambda>r. HasPrefix (WarnMsg r) ''expires in '')
           (Sent (checkHostHttps dial initNow timeNow host warnDays)) =
         map (\<lambda>cert. \<lparr>WarnMsg = (if expiresIn timeNow cert \<le> 48
                             then errExpiringShortly (expiresIn timeNow cert)
                             else errExpiringSoon (expiresIn timeNow cert div 24)),
                       Host = dialAddress host\<rparr>)
           (filter (\<lambda>cert. After (AddDate_days timeNow warnDays) (NotAfter cert)) (concat chs))"
    unfolding Sent_Conn [where dial = dial, OF assms] filter_chainsLoop concat_checkExpiration ..
next
  assume a: "0 \<le> NotAfter cert - timeNow \<and> NotAfter cert - timeNow < 4096 * Hour"
  then have "\<bar>NotAfter cert - timeNow\<bar> < 4096 * Hour" by simp
  then have e: "expiresIn timeNow cert = (NotAfter cert - timeNow) div Hour"
    using a by (simp add: expiresIn_exact quo_nonneg Hour_val)
  show "expiresIn timeNow cert = \<lfloor>(of_int (NotAfter cert - timeNow) :: rat) / of_int Hour\<rfloor>"
    unfolding e floor_hours ..
  show "expiresIn timeNow cert div 24
      = \<lfloor>(of_int (NotAfter cert - timeNow) :: rat) / of_int Hour / 24\<rfloor>"
    unfolding e floor_days ..
next
  assume a: "NotAfter cert - timeNow < 0 \<and> - (4096 * Hour) < NotAfter cert - timeNow"
  then have "\<bar>NotAfter cert - timeNow\<bar> < 4096 * Hour" by simp
  then have "expiresIn timeNow cert = quo (NotAfter cert - timeNow) Hour" by (rule expiresIn_exact)
  also have "\<dots> = - quo (timeNow - NotAfter cert) Hour"
    using quo_neg [of "timeNow - NotAfter cert" Hour] by simp
  also have "quo (timeNow - NotAfter cert) Hour = (timeNow - NotAfter cert) div Hour"
    using a by (intro quo_nonneg) (simp_all add: Hour_val)
  finally show "expiresIn timeNow cert = - \<lfloor>(of_int (timeNow - NotAfter cert) :: rat) / of_int Hour\<rfloor>"
    unfolding floor_hours .
qed

theorem expiry_findings_sent_witness:
  "filter (\<lambda>r. HasPrefix (WarnMsg r) ''expires in '')
     (Sent (checkHostHttps
        (\<lambda>a. Conn [[\<lparr>NotAfter = 864000000000000, SignatureAlgorithm = SHA256WithRSA\<rparr>,
                     \<lparr>NotAfter = 171000000000000, SignatureAlgorithm = SHA256WithRSA\<rparr>,
                     \<lparr>NotAfter = - 5400000000000, SignatureAlgorithm = SHA256WithRSA\<rparr>,
                     \<lparr>NotAfter = 34560000000000000, SignatureAlgorithm = SHA256WithRSA\<rparr>]])
        0 0 ''example.com'' 30))
   = [\<lparr>WarnMsg = ''expires in 10 days'', Host = ''example.com:443''\<rparr>,
      \<lparr>WarnMsg = ''expires in 47 hours'', Host = ''example.com:443''\<rparr>,
      \<lparr>WarnMsg = ''expires in -1 hours'', Host = ''example.com:443''\<rparr>]"
proof -
  let ?a = "\<lparr>NotAfter = 864000000000000, SignatureAlgorithm = SHA256WithRSA\<rparr>"
  let ?b = "\<lparr>NotAfter = 171000000000000, SignatureAlgorithm = SHA256WithRSA\<rparr>"
  let ?c = "\<lparr>NotAfter = - 5400000000000, SignatureAlgorithm = SHA256WithRSA\<rparr>"
  let ?d = "\<lparr>NotAfter = 34560000000000000, SignatureAlgorithm = SHA256WithRSA\<rparr>"
  let ?dial = "\<lambda>a::string. Conn [[?a, ?b, ?c, ?d]]"
  have h: "''example.com'' \<noteq> []" "hd ''example.com'' \<noteq> CHR ''@''" by simp_all
  have a: "dialAddress ''example.com'' = ''example.com:443''"
    by (simp add: dialAddress_def Let_def)
  have d: "?dial (dialAddress ''example.com'') = Conn [[?a, ?b, ?c, ?d]]" by simp
  note t = expiry_findings_sent [where dial = ?dial, OF h d, of 0 0 30, unfolded floor_hours floor_days]
  have ea: "expiresIn 0 ?a = 240" "expiresIn 0 ?a div 24 = 10"
    using t [of ?a] by (simp_all add: Hour_val)
  have eb: "expiresIn 0 ?b = 47"
    using t [of ?b] by (simp add: Hour_val)
  have ec: "expiresIn 0 ?c = - 1"
    using t [of ?c] by (simp add: Hour_val)
  have w: "After (AddDate_days 0 30) (NotAfter ?a)" "After (AddDate_days 0 30) (NotAfter ?b)"
    "After (AddDate_days 0 30) (NotAfter ?c)" "\<not> After (AddDate_days 0 30) (NotAfter ?d)"
    by (simp_all add: After_def AddDate_days_def Hour_val)
  have "filter (\<lambda>r. HasPrefix (WarnMsg r) ''expires in '')
      (Sent (checkHostHttps ?dial 0 0 ''example.com'' 30)) =
    map (\<lambda>cert. \<lparr>WarnMsg = (if expiresIn 0 cert \<le> 48
                             then errExpiringShortly (expiresIn 0 cert)
                             else errExpiringSoon (expiresIn 0 cert div 24)),
                       Host = dialAddress ''example.com''\<rparr>)
           (filter (\<lambda>cert. After (AddDate_days 0 30) (NotAfter cert)) (concat [[?a, ?b, ?c, ?d]]))"
    using t [of ?a] by (simp only:)
  also have "filter (\<lambda>cert. After (AddDate_days 0 30) (NotAfter cert)) (concat [[?a, ?b, ?c, ?d]])
      = [?a, ?b, ?c]" using w by simp
  finally show ?thesis
    by (simp add: a ea eb ec errExpiringSoon_def errExpiringShortly_def FormatInt_examples)
qed

text \<open>
  C4 fails as stated at three inputs, in nanoseconds with \<open>timeNow = 0\<close>. One nanosecond
  after expiry the hours remaining are \<open>- 1 / Hour\<close>, of floor \<open>- 1\<close>, and the finding
  says 0 hours: the conversion to int64 cuts toward zero. With 4104 hours less one
  nanosecond left, the sum \<open>4103 + 0.99999999999972\<close> is not a float64 and rounds to 4104,
  so that the finding says 171 days where the floor of the hours over 24 is 170. And a
  leaf with 10 days left that two verified chains share yields two expiry findings, one
  for each chain.
\<close>

theorem floor_of_hours_counterexample:
  "Sent (checkHostHttps
      (\<lambda>a. Conn [[\<lparr>NotAfter = - 1, SignatureAlgorithm = SHA256WithRSA\<rparr>]])
      0 0 ''example.com'' 1)
     = [\<lparr>WarnMsg = ''expires in 0 hours'', Host = ''example.com:443''\<rparr>]
   \<and> \<lfloor>(of_int (- 1 - 0) :: rat) / of_int Hour\<rfloor> = - 1
   \<and> Sent (checkHostHttps
      (\<lambda>a. Conn [[\<lparr>NotAfter = 14774399999999999, SignatureAlgorithm = SHA256WithRSA\<rparr>]])
      0 0 ''example.com'' 365)
     = [\<lparr>WarnMsg = ''expires in 171 days'', Host = ''example.com:443''\<rparr>]
   \<and> \<lfloor>(of_int (14774399999999999 - 0) :: rat) / of_int Hour / 24\<rfloor> = 170
   \<and> Sent (checkHostHttps
      (\<lambda>a. Conn [[\<lparr>NotAfter = 864000000000000, SignatureAlgorithm = SHA256WithRSA\<rparr>,
                   \<lparr>NotAfter = 34560000000000000, SignatureAlgorithm = SHA256WithRSA\<rparr>],
                  [\<lparr>NotAfter = 864000000000000, SignatureAlgorithm = SHA256WithRSA\<rparr>,
                   \<lparr>NotAfter = 69120000000000000, SignatureAlgorithm = SHA256WithRSA\<rparr>]])
      0 0 ''example.com'' 30)
     = [\<lparr>WarnMsg = ''expires in 10 days'', Host = ''example.com:443''\<rparr>,
        \<lparr>WarnMsg = ''expires in 10 days'', Host = ''example.com:443''\<rparr>]"
proof -
  let ?a = "\<lparr>NotAfter = - 1, SignatureAlgorithm = SHA256WithRSA\<rparr>"
  let ?b = "\<lparr>NotAfter = 14774399999999999, SignatureAlgorithm = SHA256WithRSA\<rparr>"
  let ?l = "\<lparr>NotAfter = 864000000000000, SignatureAlgorithm = SHA256WithRSA\<rparr>"
  let ?r1 = "\<lparr>NotAfter = 34560000000000000, SignatureAlgorithm = SHA256WithRSA\<rparr>"
  let ?r2 = "\<lparr>NotAfter = 69120000000000000, SignatureAlgorithm = SHA256WithRSA\<rparr>"
  have ad: "dialAddress ''example.com'' = ''example.com:443''"
    by (simp add: dialAddress_def Let_def)
  have "expiresIn 0 ?a = quo (NotAfter ?a - 0) Hour" by (rule expiresIn_exact) (simp add: Hour_val)
  then have ea: "expiresIn 0 ?a = 0" by (simp add: quo_def Hour_val)
  have "Sub (NotAfter ?b) 0 = 14774399999999999"
    by (simp add: Sub_def Let_def maxDuration_def minDuration_def Hour_val)
  then have eb: "expiresIn 0 ?b = 4104"
    by (simp add: expiresIn_def Hours_rounds_up_numeral int64_def)
  have "expiresIn 0 ?l = quo (NotAfter ?l - 0) Hour" by (rule expiresIn_exact) (simp add: Hour_val)
  then have el: "expiresIn 0 ?l = 240" by (simp add: quo_def Hour_val)
  have q: "quo 4104 24 = 171" "quo 240 24 = 10" by (simp_all add: quo_def)
  have z: "checkSigAlg 0 ''example.com:443'' n i
      \<lparr>NotAfter = t, SignatureAlgorithm = SHA256WithRSA\<rparr> = []" for n i t
    by (simp add: checkSigAlg_def sunsetSigAlgs_def)
  have xa: "checkExpiration 0 1 ''example.com:443'' ?a
     = [\<lparr>WarnMsg = ''expires in 0 hours'', Host = ''example.com:443''\<rparr>]"
    by (simp add: checkExpiration_def ea After_def AddDate_days_def Hour_val
      errExpiringShortly_def FormatInt_examples)
  have xb: "checkExpiration 0 365 ''example.com:443'' ?b
     = [\<lparr>WarnMsg = ''expires in 171 days'', Host = ''example.com:443''\<rparr>]"
    by (simp add: checkExpiration_def eb q After_def AddDate_days_def Hour_val
      errExpiringSoon_def FormatInt_examples)
  have xl: "checkExpiration 0 30 ''example.com:443'' ?l
     = [\<lparr>WarnMsg = ''expires in 10 days'', Host = ''example.com:443''\<rparr>]"
    by (simp add: checkExpiration_def el q After_def AddDate_days_def Hour_val
      errExpiringSoon_def FormatInt_examples)
  have xr: "checkExpiration 0 30 ''example.com:443'' ?r1 = []"
    "checkExpiration 0 30 ''example.com:443'' ?r2 = []"
    by (simp_all add: checkExpiration_def After_def AddDate_days_def Hour_val)
  have 1: "Sent (checkHostHttps (\<lambda>a. Conn [[?a]]) 0 0 ''example.com'' 1)
     = [\<lparr>WarnMsg = ''expires in 0 hours'', Host = ''example.com:443''\<rparr>]"
    by (simp add: checkHostHttps_def Let_def ad xa z)
  have 2: "\<lfloor>(of_int (- 1 - 0) :: rat) / of_int Hour\<rfloor> = - 1"
    unfolding floor_hours by (simp add: Hour_val)
  have 3: "Sent (checkHostHttps (\<lambda>a. Conn [[?b]]) 0 0 ''example.com'' 365)
     = [\<lparr>WarnMsg = ''expires in 171 days'', Host = ''example.com:443''\<rparr>]"
    by (simp add: checkHostHttps_def Let_def ad xb z)
  have 4: "\<lfloor>(of_int (14774399999999999 - 0) :: rat) / of_int Hour / 24\<rfloor> = 170"
    unfolding floor_days by (simp add: Hour_val)
  have 5: "Sent (checkHostHttps (\<lambda>a. Conn [[?l, ?r1], [?l, ?r2]]) 0 0 ''example.com'' 30)
     = [\<lparr>WarnMsg = ''expires in 10 days'', Host = ''example.com:443''\<rparr>,
        \<lparr>WarnMsg = ''expires in 10 days'', Host = ''example.com:443''\<rparr>]"
    by (simp add: checkHostHttps_def Let_def ad xl xr z)
  show ?thesis using 1 2 3 4 5 by simp
qed

section \<open>C10: a chain certificate that has already expired\<close>




section \<open>C2: the certificates that are inspected\<close>

text \<open>
  C2, as amended. After a handshake that succeeds, what is sent is, chain by chain and
  certificate by certificate, the result of the expiry check followed by the result of the
  signature algorithm check, for every index of the chain, the last (root) one included.
  Only the signature algorithm check leaves out the root position: it sends nothing for
  the last certificate of a chain, while a last certificate inside the warn window yields
  an expiry finding.
\<close>

theorem inspection_covers_root:
  assumes "host \<noteq> []" "hd host \<noteq> CHR ''@''" "dial (dialAddress host) = Conn chs"
  shows "Sent (checkHostHttps dial initNow timeNow host warnDays) =
           concat (map (\<lambda>chain. concat (map (\<lambda>i.
               checkExpiration timeNow warnDays (dialAddress host) (chain ! i)
               @ checkSigAlg initNow (dialAddress host) (length chain) i (chain ! i))
             [0..<length chain])) chs)
       \<and> (\<forall>chain \<in> set chs. chain \<noteq> [] \<longrightarrow>
             checkSigAlg initNow (dialAddress host) (length chain) (length chain - 1) (last chain) = []
             \<and> (After (AddDate_days timeNow warnDays) (NotAfter (last chain)) \<longrightarrow>
                  (\<exists>m. (m = errExpiringShortly (expiresIn timeNow (last chain))
                        \<or> m = errExpiringSoon (quo (expiresIn timeNow (last chain)) 24))
                     \<and> \<lparr>WarnMsg = m, Host = dialAddress host\<rparr>
                          \<in> set (Sent (checkHostHttps dial initNow timeNow host warnDays)))))"
proof (intro conjI ballI impI)
  show s: "Sent (checkHostHttps dial initNow timeNow host warnDays) =
           concat (map (\<lambda>chain. concat (map (\<lambda>i.
               checkExpiration timeNow warnDays (dialAddress host) (chain ! i)
               @ checkSigAlg initNow (dialAddress host) (length chain) i (chain ! i))
             [0..<length chain])) chs)"
    using assms by (rule Sent_per_certificate)
  fix chain assume c: "chain \<in> set chs" "chain \<noteq> []"
  show "checkSigAlg initNow (dialAddress host) (length chain) (length chain - 1) (last chain) = []"
    using c(2) by (cases "sunsetSigAlgs initNow (SignatureAlgorithm (last chain))")
      (simp_all add: checkSigAlg_def of_nat_diff Suc_leI)
  assume w: "After (AddDate_days timeNow warnDays) (NotAfter (last chain))"
  define m where "m = (if expiresIn timeNow (last chain) \<le> 48
      then errExpiringShortly (expiresIn timeNow (last chain))
      else errExpiringSoon (quo (expiresIn timeNow (last chain)) 24))"
  have e: "checkExpiration timeNow warnDays (dialAddress host) (last chain)
      = [\<lparr>WarnMsg = m, Host = dialAddress host\<rparr>]"
    using w by (simp add: checkExpiration_def m_def)
  have l: "last chain = chain ! (length chain - 1)" using c(2) by (rule last_conv_nth)
  have i: "length chain - 1 \<in> set [0..<length chain]" using c(2) by simp
  have "\<lparr>WarnMsg = m, Host = dialAddress host\<rparr>
      \<in> set (checkExpiration timeNow warnDays (dialAddress host) (chain ! (length chain - 1)))"
    using e l by simp
  then have "\<lparr>WarnMsg = m, Host = dialAddress host\<rparr>
      \<in> set (Sent (checkHostHttps dial initNow timeNow host warnDays))"
    unfolding s using c(1) i by (simp del: set_upt) blast
  moreover have "m = errExpiringShortly (expiresIn timeNow (last chain))
      \<or> m = errExpiringSoon (quo (expiresIn timeNow (last chain)) 24)" by (simp add: m_def)
  ultimately show "\<exists>m. (m = errExpiringShortly (expiresIn timeNow (last chain))
                        \<or> m = errExpiringSoon (quo (expiresIn timeNow (last chain)) 24))
                     \<and> \<lparr>WarnMsg = m, Host = dialAddress host\<rparr>
                          \<in> set (Sent (checkHostHttps dial initNow timeNow host warnDays))"
    by blast
qed

theorem inspection_covers_root_witness:
  "Sent (checkHostHttps
      (\<lambda>a. Conn [[\<lparr>NotAfter = 34560000000000000, SignatureAlgorithm = SHA256WithRSA\<rparr>,
                   \<lparr>NotAfter = 86400000000000, SignatureAlgorithm = SHA256WithRSA\<rparr>]])
      0 0 ''example.com'' 30)
   = [\<lparr>WarnMsg = ''expires in 24 hours'', Host = ''example.com:443''\<rparr>]"
proof -
  let ?leaf = "\<lparr>NotAfter = 34560000000000000, SignatureAlgorithm = SHA256WithRSA\<rparr>"
  let ?root = "\<lparr>NotAfter = 86400000000000, SignatureAlgorithm = SHA256WithRSA\<rparr>"
  let ?dial = "\<lambda>a::string. Conn [[?leaf, ?root]]"
  have h: "''example.com'' \<noteq> []" "hd ''example.com'' \<noteq> CHR ''@''" by simp_all
  have a: "dialAddress ''example.com'' = ''example.com:443''"
    by (simp add: dialAddress_def Let_def)
  have d: "?dial (dialAddress ''example.com'') = Conn [[?leaf, ?root]]" by simp
  have "expiresIn 0 ?root = quo (NotAfter ?root - 0) Hour" by (rule expiresIn_exact) (simp add: Hour_val)
  then have e: "expiresIn 0 ?root = 24" by (simp add: quo_def Hour_val)
  have u: "[0..<length [?leaf, ?root]] = [0, 1]" by (simp add: upt_rec)
  have x: "checkExpiration 0 30 ''example.com:443'' ?leaf = []"
    by (simp add: checkExpiration_def After_def AddDate_days_def Hour_val)
  have y: "checkExpiration 0 30 ''example.com:443'' ?root
      = [\<lparr>WarnMsg = ''expires in 24 hours'', Host = ''example.com:443''\<rparr>]"
    by (simp add: checkExpiration_def e After_def AddDate_days_def Hour_val
      errExpiringShortly_def FormatInt_examples)
  have z: "checkSigAlg 0 ''example.com:443'' n i ?leaf = []"
    "checkSigAlg 0 ''example.com:443'' n i ?root = []" for n i
    by (simp_all add: checkSigAlg_def sunsetSigAlgs_def)
  show ?thesis
    using inspection_covers_root [where dial = ?dial, OF h d, of 0 0 30]
    unfolding a u by (simp add: x y z)
qed

text \<open>
  C2 fails as stated on a chain of a leaf with 20 days left and a root with 10 days left,
  under a warn window of 30 days: two expiry findings are sent, the second one for the
  certificate in the root position.
\<close>

theorem root_expiry_counterexample:
  "Sent (checkHostHttps
      (\<lambda>a. Conn [[\<lparr>NotAfter = 1728000000000000, SignatureAlgorithm = SHA256WithRSA\<rparr>,
                   \<lparr>NotAfter = 864000000000000, SignatureAlgorithm = SHA256WithRSA\<rparr>]])
      0 0 ''example.com'' 30)
   = [\<lparr>WarnMsg = ''expires in 20 days'', Host = ''example.com:443''\<rparr>,
      \<lparr>WarnMsg = ''expires in 10 days'', Host = ''example.com:443''\<rparr>]"
proof -
  let ?leaf = "\<lparr>NotAfter = 1728000000000000, SignatureAlgorithm = SHA256WithRSA\<rparr>"
  let ?root = "\<lparr>NotAfter = 864000000000000, SignatureAlgorithm = SHA256WithRSA\<rparr>"
  have a: "dialAddress ''example.com'' = ''example.com:443''"
    by (simp add: dialAddress_def Let_def)
  have "expiresIn 0 ?leaf = quo (NotAfter ?leaf - 0) Hour" by (rule expiresIn_exact) (simp add: Hour_val)
  then have el: "expiresIn 0 ?leaf = 480" by (simp add: quo_def Hour_val)
  have "expiresIn 0 ?root = quo (NotAfter ?root - 0) Hour" by (rule expiresIn_exact) (simp add: Hour_val)
  then have er: "expiresIn 0 ?root = 240" by (simp add: quo_def Hour_val)
  have q: "quo 480 24 = 20" "quo 240 24 = 10" by (simp_all add: quo_def)
  have x: "checkExpiration 0 30 ''example.com:443'' ?leaf
      = [\<lparr>WarnMsg = ''expires in 20 days'', Host = ''example.com:443''\<rparr>]"
    by (simp add: checkExpiration_def el q After_def AddDate_days_def Hour_val
      errExpiringSoon_def FormatInt_examples)
  have y: "checkExpiration 0 30 ''example.com:443'' ?root
      = [\<lparr>WarnMsg = ''expires in 10 days'', Host = ''example.com:443''\<rparr>]"
    by (simp add: checkExpiration_def er q After_def AddDate_days_def Hour_val
      errExpiringSoon_def FormatInt_examples)
  have z: "checkSigAlg 0 ''example.com:443'' n i ?leaf = []"
    "checkSigAlg 0 ''example.com:443'' n i ?root = []" for n i
    by (simp_all add: checkSigAlg_def sunsetSigAlgs_def)
  show ?thesis
    by (simp add: checkHostHttps_def Let_def a x y z)
qed

section \<open>The map of the aggregator\<close>

lemma appendHost_keys: "set (map fst (appendHost b k h)) = insert k (set (map fst b))"
  by (induction b k h rule: appendHost.induct) auto

lemma appendHost_distinct: "distinct (map fst b) \<Longrightarrow> distinct (map fst (appendHost b k h))"
proof (induction b k h rule: appendHost.induct)
  case (1 k h)
  show ?case by simp
next
  case (2 k' hs rest k h)
  show ?case
  proof (cases "k' = k")
    case True
    then show ?thesis using 2 by simp
  next
    case False
    then have "k' \<notin> set (map fst (appendHost rest k h))"
      using 2 by (simp only: appendHost_keys) auto
    then show ?thesis using 2 False by simp
  qed
qed

lemma appendHost_lookup:
  "map_of (appendHost b k h) m =
     (if m = k then Some ((case map_of b k of None \<Rightarrow> [] | Some hs \<Rightarrow> hs) @ [h]) else map_of b m)"
  by (induction b k h rule: appendHost.induct) auto

lemma receive_fold:
  "msgs (foldl (Send_step post ord) st (map Receive rs)) =
     foldl (\<lambda>b r. appendHost b (WarnMsg r) (Host r)) (msgs st) rs"
  by (induction rs arbitrary: st) simp_all

lemma fold_distinct:
  "distinct (map fst b) \<Longrightarrow>
     distinct (map fst (foldl (\<lambda>b r. appendHost b (WarnMsg r) (Host r)) b rs))"
  by (induction rs arbitrary: b) (simp_all add: appendHost_distinct)

lemma fold_lookup:
  "map_of (foldl (\<lambda>b r. appendHost b (WarnMsg r) (Host r)) b rs) m =
     (if hostsOf m rs = [] then map_of b m
      else Some ((case map_of b m of None \<Rightarrow> [] | Some hs \<Rightarrow> hs) @ hostsOf m rs))"
proof (induction rs arbitrary: b)
  case Nil
  show ?case by simp
next
  case (Cons r rs)
  show ?case
    unfolding foldl_Cons Cons.IH
    by (simp add: appendHost_lookup)
qed

lemma tick_clears: "msgs (Send_step post ord st Tick) = []"
  by (simp add: Send_step.simps(2) Let_def split: PostResult.split)

section \<open>C3: a tick of the timer\<close>

text \<open>
  C3. Whatever the state of the loop and whatever \<^verbatim>\<open>httpClient.Post\<close> answers, an error
  included, the map is empty after a tick. On an empty map nothing is posted; on a map
  with entries exactly one message is posted, the join of the entries visited.
\<close>

theorem tick_flushes_buffer:
  "msgs (Send_step post ord st Tick) = []
   \<and> posted (Send_step post ord st Tick) =
       (if msgs st = [] then posted st
        else posted st @ [newDMessage
               (Join (concat (map (\<lambda>(msg, hosts). msg # hosts) (ord (msgs st)))) [CHR 0x0A])
               None False])"
  by (simp add: Send_step.simps(2) Let_def split: PostResult.split)

theorem tick_flushes_buffer_witness:
  "msgs (Send (\<lambda>m. PostError ''context deadline exceeded'') (\<lambda>b. b)
      [Receive \<lparr>WarnMsg = ''expires in 10 days'', Host = ''a.example.com:443''\<rparr>,
       Receive \<lparr>WarnMsg = ''expires in 10 days'', Host = ''b.example.com:443''\<rparr>,
       Tick, Tick]) = []
   \<and> map (\<lambda>m. Content (Text m)) (posted (Send (\<lambda>m. PostError ''context deadline exceeded'') (\<lambda>b. b)
      [Receive \<lparr>WarnMsg = ''expires in 10 days'', Host = ''a.example.com:443''\<rparr>,
       Receive \<lparr>WarnMsg = ''expires in 10 days'', Host = ''b.example.com:443''\<rparr>,
       Tick, Tick]))
     = [''expires in 10 days'' @ [CHR 0x0A] @ ''a.example.com:443'' @ [CHR 0x0A] @ ''b.example.com:443'']"
proof -
  let ?post = "\<lambda>m::DMessage. PostError ''context deadline exceeded''"
  let ?ord = "\<lambda>b::Msgs. b"
  let ?r = "[Receive \<lparr>WarnMsg = ''expires in 10 days'', Host = ''a.example.com:443''\<rparr>,
       Receive \<lparr>WarnMsg = ''expires in 10 days'', Host = ''b.example.com:443''\<rparr>]"
  define s1 where "s1 = Send ?post ?ord ?r"
  define s2 where "s2 = Send_step ?post ?ord s1 Tick"
  have m1: "msgs s1 = [(''expires in 10 days'', [''a.example.com:443'', ''b.example.com:443''])]"
    and p1: "posted s1 = []"
    by (simp_all add: s1_def Send_def)
  have e: "Send ?post ?ord (?r @ [Tick, Tick]) = Send_step ?post ?ord s2 Tick"
    by (simp add: Send_def s1_def s2_def)
  have a: "msgs s2 = []" "posted s2 = [newDMessage
      (''expires in 10 days'' @ [CHR 0x0A] @ ''a.example.com:443'' @ [CHR 0x0A] @ ''b.example.com:443'')
      None False]"
    using tick_flushes_buffer [of ?post ?ord s1] by (simp_all add: s2_def m1 p1)
  have b: "msgs (Send_step ?post ?ord s2 Tick) = []" "posted (Send_step ?post ?ord s2 Tick) = posted s2"
    using tick_flushes_buffer [of ?post ?ord s2] by (simp_all add: a)
  have "msgs (Send ?post ?ord (?r @ [Tick, Tick])) = []
    \<and> map (\<lambda>m. Content (Text m)) (posted (Send ?post ?ord (?r @ [Tick, Tick])))
      = [''expires in 10 days'' @ [CHR 0x0A] @ ''a.example.com:443'' @ [CHR 0x0A] @ ''b.example.com:443'']"
    unfolding e b a by (simp add: newDMessage_def)
  then show ?thesis by simp
qed

section \<open>C9: the map groups the hosts by message\<close>

text \<open>
  C9. After the findings \<open>rs\<close> are received, from the start or after any tick, the map has
  one entry for each message of \<open>rs\<close> and no other, and the entry of a message \<open>m\<close> lists
  the hosts of the findings with message \<open>m\<close> in the order of their arrival.
\<close>

theorem buffer_groups_by_message:
  "distinct (map fst (msgs (Send post ord (map Receive rs))))
   \<and> map_of (msgs (Send post ord (map Receive rs))) m =
       (if m \<in> WarnMsg ` set rs then Some (map Host (filter (\<lambda>r. WarnMsg r = m) rs)) else None)
   \<and> msgs (Send post ord (evs @ Tick # map Receive rs)) = msgs (Send post ord (map Receive rs))"
proof (intro conjI)
  have s: "msgs (Send post ord (map Receive rs))
      = foldl (\<lambda>b r. appendHost b (WarnMsg r) (Host r)) [] rs"
    unfolding Send_def receive_fold by simp
  show "distinct (map fst (msgs (Send post ord (map Receive rs))))"
    unfolding s by (rule fold_distinct) simp
  have f: "(filter (\<lambda>r. WarnMsg r = m) rs = []) = (m \<notin> WarnMsg ` set rs)"
    by (auto simp: filter_empty_conv)
  show "map_of (msgs (Send post ord (map Receive rs))) m =
       (if m \<in> WarnMsg ` set rs then Some (map Host (filter (\<lambda>r. WarnMsg r = m) rs)) else None)"
    unfolding s fold_lookup using f by simp
  show "msgs (Send post ord (evs @ Tick # map Receive rs)) = msgs (Send post ord (map Receive rs))"
    by (simp add: Send_def receive_fold tick_clears)
qed

theorem buffer_groups_by_message_witness:
  "msgs (Send (\<lambda>m. Response ''ok'') (\<lambda>b. b)
      [Receive \<lparr>WarnMsg = ''expires in 10 days'', Host = ''a.example.com:443''\<rparr>,
       Receive \<lparr>WarnMsg = ''expires in 3 hours'', Host = ''c.example.com:443''\<rparr>,
       Receive \<lparr>WarnMsg = ''expires in 10 days'', Host = ''b.example.com:443''\<rparr>])
   = [(''expires in 10 days'', [''a.example.com:443'', ''b.example.com:443'']),
      (''expires in 3 hours'', [''c.example.com:443''])]
   \<and> map_of (msgs (Send (\<lambda>m. Response ''ok'') (\<lambda>b. b)
      (map Receive [\<lparr>WarnMsg = ''expires in 10 days'', Host = ''a.example.com:443''\<rparr>,
       \<lparr>WarnMsg = ''expires in 3 hours'', Host = ''c.example.com:443''\<rparr>,
       \<lparr>WarnMsg = ''expires in 10 days'', Host = ''b.example.com:443''\<rparr>])))
       ''expires in 10 days''
     = Some [''a.example.com:443'', ''b.example.com:443'']"
proof -
  let ?rs = "[\<lparr>WarnMsg = ''expires in 10 days'', Host = ''a.example.com:443''\<rparr>,
       \<lparr>WarnMsg = ''expires in 3 hours'', Host = ''c.example.com:443''\<rparr>,
       \<lparr>WarnMsg = ''expires in 10 days'', Host = ''b.example.com:443''\<rparr>]"
  have "map_of (msgs (Send (\<lambda>m. Response ''ok'') (\<lambda>b. b) (map Receive ?rs))) ''expires in 10 days''
     = Some [''a.example.com:443'', ''b.example.com:443'']"
    using buffer_groups_by_message [of "\<lambda>m. Response ''ok''" "\<lambda>b. b" ?rs "''expires in 10 days''" "[]"]
    by simp
  then show ?thesis by (simp add: Send_def)
qed

section \<open>The retry loop of the remote DNS provider\<close>

lemma retryLoop_calls_le:
  "retry \<le> maxRetry \<Longrightarrow> calls (retryLoop answer domain retry lastE) \<le> maxRetry"
proof (induction answer domain retry lastE rule: retryLoop.induct)
  case (1 answer domain retry lastE)
  show ?case
  proof (cases "retry < maxRetry")
    case False
    then show ?thesis using "1.prems" by (simp add: retryLoop.simps)
  next
    case True
    show ?thesis
    proof (cases "answer retry")
      case (ApiError e)
      then show ?thesis using True "1.IH"(1) [OF True ApiError]
        by (subst retryLoop.simps) simp
    next
      case (ApiResponse resp)
      show ?thesis
      proof (cases "StatusCode resp = 200")
        case ok: True
        then show ?thesis using True ApiResponse by (subst retryLoop.simps) simp
      next
        case bad: False
        then show ?thesis using True ApiResponse "1.IH"(2) [OF True ApiResponse bad]
          by (subst retryLoop.simps) simp
      qed
    qed
  qed
qed

lemma retryLoop_all_fail:
  assumes "\<forall>j. retry \<le> j \<and> j < maxRetry \<longrightarrow> \<not> succeeded (answer j)" "retry \<le> maxRetry"
  shows "cnt (retryLoop answer domain retry lastE) = - 1
       \<and> sent (retryLoop answer domain retry lastE) = []
       \<and> calls (retryLoop answer domain retry lastE) = maxRetry"
  using assms
proof (induction answer domain retry lastE rule: retryLoop.induct)
  case (1 answer domain retry lastE)
  show ?case
  proof (cases "retry < maxRetry")
    case False
    then show ?thesis using "1.prems" by (simp add: retryLoop.simps)
  next
    case True
    have nf: "\<not> succeeded (answer retry)" using "1.prems"(1) True by simp
    have rest: "\<forall>j. retry + 1 \<le> j \<and> j < maxRetry \<longrightarrow> \<not> succeeded (answer j)"
      using "1.prems"(1) by simp
    have le: "retry + 1 \<le> maxRetry" using True by simp
    show ?thesis
    proof (cases "answer retry")
      case (ApiError e)
      then show ?thesis using True "1.IH"(1) [OF True ApiError rest le]
        by (subst (1 2 3) retryLoop.simps) simp
    next
      case (ApiResponse resp)
      then have bad: "StatusCode resp \<noteq> 200" using nf by (simp add: succeeded_def)
      then show ?thesis using True ApiResponse "1.IH"(2) [OF True ApiResponse bad rest le]
        by (subst (1 2 3) retryLoop.simps) simp
    qed
  qed
qed

lemma retryLoop_first_success:
  assumes "retry \<le> i" "i < maxRetry" "answer i = ApiResponse resp" "StatusCode resp = 200"
    "\<forall>j. retry \<le> j \<and> j < i \<longrightarrow> \<not> succeeded (answer j)"
  shows "retryLoop answer domain retry lastE =
     \<lparr>cnt = (if rem (TotalCount resp) defaultSize \<noteq> 0
               then quo (TotalCount resp) defaultSize + 1
               else quo (TotalCount resp) defaultSize),
      lastErr = None,
      sent = map (\<lambda>rr. rr @ ''.'' @ domain) (Record resp),
      calls = i + 1\<rparr>"
  using assms
proof (induction answer domain retry lastE rule: retryLoop.induct)
  case (1 answer domain retry lastE)
  have lt: "retry < maxRetry" using "1.prems"(1,2) by simp
  show ?case
  proof (cases "retry = i")
    case True
    then show ?thesis using lt "1.prems"(3,4) by (subst retryLoop.simps) simp
  next
    case False
    then have ri: "retry < i" using "1.prems"(1) by simp
    then have nf: "\<not> succeeded (answer retry)" using "1.prems"(5) by simp
    have le: "retry + 1 \<le> i" using ri by simp
    have rest: "\<forall>j. retry + 1 \<le> j \<and> j < i \<longrightarrow> \<not> succeeded (answer j)"
      using "1.prems"(5) by simp
    show ?thesis
    proof (cases "answer retry")
      case (ApiError e)
      then show ?thesis
        using lt "1.IH"(1) [OF lt ApiError le "1.prems"(2,3,4) rest]
        by (subst retryLoop.simps) simp
    next
      case (ApiResponse r)
      then have bad: "StatusCode r \<noteq> 200" using nf by (simp add: succeeded_def)
      then show ?thesis
        using lt ApiResponse "1.IH"(2) [OF lt ApiResponse bad le "1.prems"(2,3,4) rest]
        by (subst retryLoop.simps) simp
    qed
  qed
qed

lemma getRecords_agree:
  assumes "\<forall>req n. DomainName req = domain \<and> RecordType req = dnsType \<longrightarrow> client' req n = client req n"
  shows "getRecords client' domain dnsType = getRecords client domain dnsType"
proof -
  have "client' \<lparr>Lang = ''en'', PageSize = s, PageNumber = p, DomainName = domain,
             RecordType = dnsType, Status = enable\<rparr>
      = client \<lparr>Lang = ''en'', PageSize = s, PageNumber = p, DomainName = domain,
             RecordType = dnsType, Status = enable\<rparr>" for p s
    using assms by (intro ext) simp
  then have "fetchWithRetry client' domain dnsType p s = fetchWithRetry client domain dnsType p s" for p s
    by (simp add: fetchWithRetry_def)
  then have "fetchWithRetry client' domain dnsType = fetchWithRetry client domain dnsType"
    by (intro ext)
  then show ?thesis unfolding getRecords_def by (simp only:)
qed

lemma GetAllRecords_units:
  "(u, r) \<in> set (GetAllRecords client domains) \<Longrightarrow> r = getRecords client (fst u) (snd u)"
  by (auto simp: GetAllRecords_def)

lemma TrimSpace_examples:
  "TrimSpace ''bad.com'' = ''bad.com''" "TrimSpace '' good.com'' = ''good.com''"
  by (simp_all add: TrimSpace_def TrimLeft.simps TrimRight.simps whiteSpace_def HasSuffix_def)

lemma GetAllRecords_eq:
  "GetAllRecords client domains =
     map (\<lambda>u. (u, getRecords client (fst u) (snd u)))
       (concat (map (\<lambda>domain. map (\<lambda>dnsType. (TrimSpace domain, dnsType)) dnsTypes) domains))"
  by (simp add: GetAllRecords_def map_concat comp_def)

lemma getRecords_agree_other:
  assumes "\<forall>req n. (DomainName req, RecordType req) \<noteq> (d, t) \<longrightarrow> client' req n = client req n"
    and "u \<noteq> (d, t)"
  shows "getRecords client' (fst u) (snd u) = getRecords client (fst u) (snd u)"
proof (rule getRecords_agree)
  show "\<forall>req n. DomainName req = fst u \<and> RecordType req = snd u \<longrightarrow> client' req n = client req n"
    using assms by (cases u) auto
qed

lemma GetAllRecords_other_units:
  assumes "\<forall>req n. (DomainName req, RecordType req) \<noteq> (d, t) \<longrightarrow> client' req n = client req n"
  shows "filter (\<lambda>e. fst e \<noteq> (d, t)) (GetAllRecords client' domains)
       = filter (\<lambda>e. fst e \<noteq> (d, t)) (GetAllRecords client domains)"
proof -
  have "filter (\<lambda>e. fst e \<noteq> (d, t)) (map (\<lambda>u. (u, getRecords client' (fst u) (snd u))) us)
      = filter (\<lambda>e. fst e \<noteq> (d, t)) (map (\<lambda>u. (u, getRecords client (fst u) (snd u))) us)" for us
    by (induction us) (simp_all add: getRecords_agree_other [OF assms])
  then show ?thesis unfolding GetAllRecords_eq .
qed

lemma GetAllRecords_abandoned:
  assumes "\<forall>i. i < 3 \<longrightarrow> \<not> succeeded (client \<lparr>Lang = ''en'', PageSize = defaultSize, PageNumber = 1,
               DomainName = d, RecordType = t, Status = enable\<rparr> i)"
    and "e \<in> set (GetAllRecords client domains)" "fst e = (d, t)"
  shows "hostnames (snd e) = []"
proof -
  have f: "cnt (retryLoop (client \<lparr>Lang = ''en'', PageSize = defaultSize, PageNumber = 1,
               DomainName = d, RecordType = t, Status = enable\<rparr>) d 0 None) = - 1
       \<and> sent (retryLoop (client \<lparr>Lang = ''en'', PageSize = defaultSize, PageNumber = 1,
               DomainName = d, RecordType = t, Status = enable\<rparr>) d 0 None) = []
       \<and> calls (retryLoop (client \<lparr>Lang = ''en'', PageSize = defaultSize, PageNumber = 1,
               DomainName = d, RecordType = t, Status = enable\<rparr>) d 0 None) = maxRetry"
    using assms(1) by (intro retryLoop_all_fail) (simp_all add: maxRetry_def)
  then have "hostnames (getRecords client d t) = []"
    by (simp add: getRecords_def fetchWithRetry_def Let_def)
  moreover have "snd e = getRecords client (fst (fst e)) (snd (fst e))"
    using assms(2) by (auto simp: GetAllRecords_eq)
  ultimately show ?thesis using assms(3) by simp
qed

section \<open>C7: three attempts for a page, and a first page that fails\<close>

text \<open>
  C7. A fetch of a page calls the client at most 3 times, and \<open>i + 1\<close> times when the
  answer number \<open>i\<close> is the first that succeeds (no error and status 200). When the three
  answers for the first page of a domain and record type all fail, \<open>getRecords\<close> sends no
  hostname for that unit, logs one warning and fetches no other page. \<open>GetAllRecords\<close> runs
  every unit, each domain with each record type, whatever the client answers; in its
  result the unit whose first page fails three times has no hostname; and when the
  answers of the client change for one unit only, what \<open>GetAllRecords\<close> does for every other
  unit is the same.
\<close>

theorem fetch_retry_and_abandon:
  "calls (fetchWithRetry client domain dnsType page pageSize) \<le> 3
   \<and> (\<forall>i. i < 3
         \<and> succeeded (client \<lparr>Lang = ''en'', PageSize = pageSize, PageNumber = page,
               DomainName = domain, RecordType = dnsType, Status = enable\<rparr> i)
         \<and> (\<forall>j. j < i \<longrightarrow> \<not> succeeded (client \<lparr>Lang = ''en'', PageSize = pageSize,
               PageNumber = page, DomainName = domain, RecordType = dnsType, Status = enable\<rparr> j))
        \<longrightarrow> calls (fetchWithRetry client domain dnsType page pageSize) = i + 1
            \<and> lastErr (fetchWithRetry client domain dnsType page pageSize) = None)
   \<and> ((\<forall>i. i < 3 \<longrightarrow> \<not> succeeded (client \<lparr>Lang = ''en'', PageSize = defaultSize, PageNumber = 1,
               DomainName = domain, RecordType = dnsType, Status = enable\<rparr> i))
        \<longrightarrow> hostnames (getRecords client domain dnsType) = []
            \<and> length (warnings (getRecords client domain dnsType)) = 1
            \<and> map calls (fetches (getRecords client domain dnsType)) = [3])
   \<and> ((\<forall>req n. DomainName req = domain \<and> RecordType req = dnsType \<longrightarrow> client' req n = client req n)
        \<longrightarrow> getRecords client' domain dnsType = getRecords client domain dnsType)
   \<and> map fst (GetAllRecords client domains) =
         concat (map (\<lambda>domain. map (\<lambda>dnsType. (TrimSpace domain, dnsType)) dnsTypes) domains)
   \<and> ((\<forall>i. i < 3 \<longrightarrow> \<not> succeeded (client \<lparr>Lang = ''en'', PageSize = defaultSize, PageNumber = 1,
               DomainName = domain, RecordType = dnsType, Status = enable\<rparr> i))
        \<longrightarrow> (\<forall>e \<in> set (GetAllRecords client domains).
               fst e = (domain, dnsType) \<longrightarrow> hostnames (snd e) = []))
   \<and> ((\<forall>req n. (DomainName req, RecordType req) \<noteq> (domain, dnsType) \<longrightarrow> other req n = client req n)
        \<longrightarrow> filter (\<lambda>e. fst e \<noteq> (domain, dnsType)) (GetAllRecords other domains)
            = filter (\<lambda>e. fst e \<noteq> (domain, dnsType)) (GetAllRecords client domains))"
proof (intro conjI allI impI)
  let ?req = "\<lparr>Lang = ''en'', PageSize = pageSize, PageNumber = page,
               DomainName = domain, RecordType = dnsType, Status = enable\<rparr>"
  show "calls (fetchWithRetry client domain dnsType page pageSize) \<le> 3"
    using retryLoop_calls_le [of 0 "client ?req" domain None]
    by (simp add: fetchWithRetry_def maxRetry_def)
next
  fix i
  let ?req = "\<lparr>Lang = ''en'', PageSize = pageSize, PageNumber = page,
               DomainName = domain, RecordType = dnsType, Status = enable\<rparr>"
  assume a: "i < 3 \<and> succeeded (client ?req i) \<and> (\<forall>j. j < i \<longrightarrow> \<not> succeeded (client ?req j))"
  then obtain resp where r: "client ?req i = ApiResponse resp" "StatusCode resp = 200"
    by (cases "client ?req i") (auto simp: succeeded_def)
  have "retryLoop (client ?req) domain 0 None =
     \<lparr>cnt = (if rem (TotalCount resp) defaultSize \<noteq> 0
               then quo (TotalCount resp) defaultSize + 1
               else quo (TotalCount resp) defaultSize),
      lastErr = None,
      sent = map (\<lambda>rr. rr @ ''.'' @ domain) (Record resp),
      calls = i + 1\<rparr>"
    using a r by (intro retryLoop_first_success) (simp_all add: maxRetry_def)
  then show "calls (fetchWithRetry client domain dnsType page pageSize) = i + 1"
    and "lastErr (fetchWithRetry client domain dnsType page pageSize) = None"
    by (simp_all add: fetchWithRetry_def)
next
  let ?req = "\<lparr>Lang = ''en'', PageSize = defaultSize, PageNumber = 1,
               DomainName = domain, RecordType = dnsType, Status = enable\<rparr>"
  assume a: "\<forall>i. i < 3 \<longrightarrow> \<not> succeeded (client ?req i)"
  have f: "cnt (retryLoop (client ?req) domain 0 None) = - 1
       \<and> sent (retryLoop (client ?req) domain 0 None) = []
       \<and> calls (retryLoop (client ?req) domain 0 None) = maxRetry"
    using a by (intro retryLoop_all_fail) (simp_all add: maxRetry_def)
  then show "hostnames (getRecords client domain dnsType) = []"
    and "length (warnings (getRecords client domain dnsType)) = 1"
    and "map calls (fetches (getRecords client domain dnsType)) = [3]"
    by (simp_all add: getRecords_def fetchWithRetry_def Let_def maxRetry_def)
next
  assume "\<forall>req n. DomainName req = domain \<and> RecordType req = dnsType \<longrightarrow> client' req n = client req n"
  then show "getRecords client' domain dnsType = getRecords client domain dnsType"
    by (rule getRecords_agree)
next
  show "map fst (GetAllRecords client domains) =
         concat (map (\<lambda>domain. map (\<lambda>dnsType. (TrimSpace domain, dnsType)) dnsTypes) domains)"
    by (simp add: GetAllRecords_eq comp_def)
next
  assume "\<forall>i. i < 3 \<longrightarrow> \<not> succeeded (client \<lparr>Lang = ''en'', PageSize = defaultSize, PageNumber = 1,
               DomainName = domain, RecordType = dnsType, Status = enable\<rparr> i)"
  then show "\<forall>e \<in> set (GetAllRecords client domains).
               fst e = (domain, dnsType) \<longrightarrow> hostnames (snd e) = []"
    using GetAllRecords_abandoned [of client domain dnsType _ domains] by blast
next
  assume "\<forall>req n. (DomainName req, RecordType req) \<noteq> (domain, dnsType) \<longrightarrow> other req n = client req n"
  then show "filter (\<lambda>e. fst e \<noteq> (domain, dnsType)) (GetAllRecords other domains)
            = filter (\<lambda>e. fst e \<noteq> (domain, dnsType)) (GetAllRecords client domains)"
    by (rule GetAllRecords_other_units)
qed

theorem fetch_retry_and_abandon_witness:
  "calls (fetchWithRetry
      (\<lambda>req n. if DomainName req = ''bad.com'' \<and> RecordType req = ''A'' then ApiError ''timeout''
                else if n = 0 then ApiResponse \<lparr>StatusCode = 500, TotalCount = 0, Record = []\<rparr>
                else ApiResponse \<lparr>StatusCode = 200, TotalCount = 2, Record = [''www'', ''api'']\<rparr>)
      ''good.com'' ''A'' 1 100) = 2
   \<and> hostnames (getRecords
      (\<lambda>req n. if DomainName req = ''bad.com'' \<and> RecordType req = ''A'' then ApiError ''timeout''
                else if n = 0 then ApiResponse \<lparr>StatusCode = 500, TotalCount = 0, Record = []\<rparr>
                else ApiResponse \<lparr>StatusCode = 200, TotalCount = 2, Record = [''www'', ''api'']\<rparr>)
      ''bad.com'' ''A'') = []
   \<and> hostnames (getRecords
      (\<lambda>req n. if n = 0 then ApiResponse \<lparr>StatusCode = 500, TotalCount = 0, Record = []\<rparr>
                else ApiResponse \<lparr>StatusCode = 200, TotalCount = 2, Record = [''www'', ''api'']\<rparr>)
      ''good.com'' ''A'') = [''www.good.com'', ''api.good.com'']
   \<and> map fst (GetAllRecords
      (\<lambda>req n. if DomainName req = ''bad.com'' \<and> RecordType req = ''A'' then ApiError ''timeout''
                else if n = 0 then ApiResponse \<lparr>StatusCode = 500, TotalCount = 0, Record = []\<rparr>
                else ApiResponse \<lparr>StatusCode = 200, TotalCount = 2, Record = [''www'', ''api'']\<rparr>)
      [''bad.com'', '' good.com''])
     = [(''bad.com'', ''A''), (''bad.com'', ''CNAME''), (''good.com'', ''A''), (''good.com'', ''CNAME'')]
   \<and> hostnames (snd (GetAllRecords
      (\<lambda>req n. if DomainName req = ''bad.com'' \<and> RecordType req = ''A'' then ApiError ''timeout''
                else if n = 0 then ApiResponse \<lparr>StatusCode = 500, TotalCount = 0, Record = []\<rparr>
                else ApiResponse \<lparr>StatusCode = 200, TotalCount = 2, Record = [''www'', ''api'']\<rparr>)
      [''bad.com'', '' good.com''] ! 0)) = []
   \<and> map (\<lambda>e. (fst e, hostnames (snd e))) (filter (\<lambda>e. fst e \<noteq> (''bad.com'', ''A''))
      (GetAllRecords
      (\<lambda>req n. if DomainName req = ''bad.com'' \<and> RecordType req = ''A'' then ApiError ''timeout''
                else if n = 0 then ApiResponse \<lparr>StatusCode = 500, TotalCount = 0, Record = []\<rparr>
                else ApiResponse \<lparr>StatusCode = 200, TotalCount = 2, Record = [''www'', ''api'']\<rparr>)
      [''bad.com'', '' good.com'']))
     = [((''bad.com'', ''CNAME''), [''www.bad.com'', ''api.bad.com'']),
        ((''good.com'', ''A''), [''www.good.com'', ''api.good.com'']),
        ((''good.com'', ''CNAME''), [''www.good.com'', ''api.good.com''])]"
proof -
  define g :: Client where "g = (\<lambda>req n.
                if n = 0 then ApiResponse \<lparr>StatusCode = 500, TotalCount = 0, Record = []\<rparr>
                else ApiResponse \<lparr>StatusCode = 200, TotalCount = 2, Record = [''www'', ''api'']\<rparr>)"
  define c :: Client where "c = (\<lambda>req n.
                if DomainName req = ''bad.com'' \<and> RecordType req = ''A'' then ApiError ''timeout''
                else if n = 0 then ApiResponse \<lparr>StatusCode = 500, TotalCount = 0, Record = []\<rparr>
                else ApiResponse \<lparr>StatusCode = 200, TotalCount = 2, Record = [''www'', ''api'']\<rparr>)"
  let ?ds = "[''bad.com'', '' good.com'']"
  note good = fetch_retry_and_abandon
    [where client = c and domain = "''good.com''" and dnsType = "''A''" and page = 1 and pageSize = 100
       and client' = g and domains = ?ds and other = g]
  note bad = fetch_retry_and_abandon
    [where client = c and domain = "''bad.com''" and dnsType = "''A''" and page = 1 and pageSize = 100
       and client' = c and domains = ?ds and other = g]
  have tr: "TrimSpace ''bad.com'' = ''bad.com''" "TrimSpace '' good.com'' = ''good.com''"
    by (simp_all add: TrimSpace_def TrimLeft.simps TrimRight.simps whiteSpace_def HasSuffix_def)
  have q: "quo 2 100 = 0" "rem 2 100 = 2" by (simp_all add: quo_def rem_def)
  have f: "fetchWithRetry g d t 1 defaultSize
      = \<lparr>cnt = 1, lastErr = None, sent = [''www.'' @ d, ''api.'' @ d], calls = 2\<rparr>" for d t
    by (simp add: fetchWithRetry_def retryLoop.simps g_def maxRetry_def defaultSize_def q)
  have gr: "hostnames (getRecords g d t) = [''www.'' @ d, ''api.'' @ d]" for d t
    by (simp add: getRecords_def f Let_def)
  have 1: "calls (fetchWithRetry c ''good.com'' ''A'' 1 100) = 2"
    using good [THEN conjunct2, THEN conjunct1, THEN spec, of 1]
    by (simp add: c_def succeeded_def)
  have 2: "hostnames (getRecords c ''bad.com'' ''A'') = []"
    using bad [THEN conjunct2, THEN conjunct2, THEN conjunct1]
    by (simp add: c_def succeeded_def)
  have "getRecords g ''good.com'' ''A'' = getRecords c ''good.com'' ''A''"
    using good [THEN conjunct2, THEN conjunct2, THEN conjunct2, THEN conjunct1]
    by (simp add: c_def g_def)
  then have 3: "hostnames (getRecords g ''good.com'' ''A'') = [''www.good.com'', ''api.good.com'']"
    using gr [of "''good.com''" "''A''"] by simp
  have 4: "map fst (GetAllRecords c ?ds)
     = [(''bad.com'', ''A''), (''bad.com'', ''CNAME''), (''good.com'', ''A''), (''good.com'', ''CNAME'')]"
    using bad [THEN conjunct2, THEN conjunct2, THEN conjunct2, THEN conjunct2, THEN conjunct1]
    by (simp add: tr dnsTypes_def)
  have len: "length (GetAllRecords c ?ds) = 4" using arg_cong [OF 4, of length] by simp
  have "fst (GetAllRecords c ?ds ! 0) = map fst (GetAllRecords c ?ds) ! 0"
    using len by (simp add: nth_map)
  then have u0: "fst (GetAllRecords c ?ds ! 0) = (''bad.com'', ''A'')" by (simp add: 4)
  have m0: "GetAllRecords c ?ds ! 0 \<in> set (GetAllRecords c ?ds)" using len by (intro nth_mem) simp
  have 5: "hostnames (snd (GetAllRecords c ?ds ! 0)) = []"
    using bad [THEN conjunct2, THEN conjunct2, THEN conjunct2, THEN conjunct2, THEN conjunct2,
      THEN conjunct1] u0 m0
    by (simp add: c_def succeeded_def)
  have agree: "\<forall>req n. (DomainName req, RecordType req) \<noteq> (''bad.com'', ''A'')
      \<longrightarrow> g req n = c req n"
    by (auto simp: c_def g_def)
  have "filter (\<lambda>e. fst e \<noteq> (''bad.com'', ''A'')) (GetAllRecords g ?ds)
      = filter (\<lambda>e. fst e \<noteq> (''bad.com'', ''A'')) (GetAllRecords c ?ds)"
    using bad [THEN conjunct2, THEN conjunct2, THEN conjunct2, THEN conjunct2, THEN conjunct2,
      THEN conjunct2, THEN mp, OF agree] .
  then have "map (\<lambda>e. (fst e, hostnames (snd e)))
        (filter (\<lambda>e. fst e \<noteq> (''bad.com'', ''A'')) (GetAllRecords c ?ds))
     = map (\<lambda>e. (fst e, hostnames (snd e)))
        (filter (\<lambda>e. fst e \<noteq> (''bad.com'', ''A'')) (GetAllRecords g ?ds))" by simp
  then have 6: "map (\<lambda>e. (fst e, hostnames (snd e)))
        (filter (\<lambda>e. fst e \<noteq> (''bad.com'', ''A'')) (GetAllRecords c ?ds))
     = [((''bad.com'', ''CNAME''), [''www.bad.com'', ''api.bad.com'']),
        ((''good.com'', ''A''), [''www.good.com'', ''api.good.com'']),
        ((''good.com'', ''CNAME''), [''www.good.com'', ''api.good.com''])]"
    by (simp add: GetAllRecords_def tr dnsTypes_def gr)
  show ?thesis using 1 2 3 4 5 6 unfolding c_def g_def by simp
qed

section \<open>C8: an option that is absent\<close>

lemma ProviderConfig_Get_absent:
  "Addition pc key = None \<Longrightarrow> ProviderConfig_Get pc key = Fatal (key @ '' not exist'')"
  by (simp add: ProviderConfig_Get_def index_def)

lemma NotifyConfig_Get_absent:
  "Config nc key = None \<Longrightarrow>
     NotifyConfig_Get nc key = Panic ''interface conversion: interface {} is nil, not string''"
  by (simp add: NotifyConfig_Get_def index_def assertString_def)

text \<open>
  C8. The claim asks that an absent option end the process through \<^verbatim>\<open>log.Fatalln\<close>, for
  providers and notifiers. \<open>ProviderConfig_Get\<close> tests for nil and does so. \<open>NotifyConfig_Get\<close>
  has no such test: for a notifier of type \<^verbatim>\<open>dding\<close> without the option \<^verbatim>\<open>url\<close> the type
  assertion on the nil value panics.
\<close>

theorem notifier_without_url_panics:
  "NewNotify \<lparr>Type = ''dding'', Config = Map.empty\<rparr>
     = Panic ''interface conversion: interface {} is nil, not string''"
  by (simp add: NewNotify_def NotifyConfig_Get_absent)

end
